theory Spec2Isabelle
  imports Main "HOL-Library.Sublist" "HOL-Library.Word"
begin

section \<open>The field filter of \<^verbatim>\<open>rewrite_code_sum.py\<close>\<close>

text \<open>
  The script enumerates \<^verbatim>\<open>data/code-summarization/*.jsonl\<close>, reads every file line by
  line, decodes each line with \<^verbatim>\<open>json.loads\<close>, keeps the whitelisted keys of the decoded
  value and writes the kept records back over the same file.

  What belongs to the Python library and not to the script is a parameter of the model:
  \<^item> \<open>loads\<close> is \<^verbatim>\<open>json.loads\<close>: it returns the decoded value, or the message of the
    \<^verbatim>\<open>JSONDecodeError\<close> it raises;
  \<^item> \<open>dumps\<close> is the text \<^verbatim>\<open>json.dump\<close> writes for a record;
  \<^item> \<open>ks\<close> is the order in which the set \<^verbatim>\<open>fields_to_keep\<close> is iterated, which Python
    leaves open (it changes with the hash seed of the process).

  A text is a list of characters, one per code point below 256; a file's content is the
  text Python reads in text mode, after decoding and newline translation.
\<close>

subsection \<open>Decoded values\<close>

text \<open>A Python float is an IEEE 754 double, kept as its 64 bits: the script never computes with one.\<close>

type_synonym pyfloat = "64 word"

text \<open>
  What \<^verbatim>\<open>json.loads\<close> can return: \<^verbatim>\<open>None\<close>, a bool, an int, a float, a str, a list or a
  dict. A dict keeps its keys in insertion order, each key once.
\<close>

datatype json =
    JNull
  | JBool bool
  | JInt int
  | JFloat pyfloat
  | JString string
  | JArray "json list"
  | JObject "(string \<times> json) list"

type_synonym pydict = "(string \<times> json) list"

type_synonym path = string

text \<open>
  The exceptions of the model. \<^verbatim>\<open>PermissionError\<close> is the subclass of \<^verbatim>\<open>OSError\<close> that
  the scan of a directory raises when the process may not read the directory; the model
  uses it for that scan only. \<^verbatim>\<open>OSError\<close> stands for every other error of the file
  system, of the scan or of a file.
\<close>

datatype error = TypeError | KeyError | OSError | PermissionError

definition keys :: "pydict \<Rightarrow> string set" where
  "keys d = fst ` set d"

subsection \<open>The whitelist (lines 14 to 17)\<close>

definition fields_to_keep :: "string set" where
  "fields_to_keep =
     {''task'', ''lang'', ''url'', ''prompt_category'',
      ''prompt_id'', ''model_name'', ''metrics''}"

text \<open>\<open>iterates ks S\<close>: the list \<open>ks\<close> is one order in which the set \<open>S\<close> can be iterated.\<close>

definition iterates :: "string list \<Rightarrow> string set \<Rightarrow> bool" where
  "iterates ks S \<longleftrightarrow> distinct ks \<and> set ks = S"

subsection \<open>The dict comprehension (lines 32 to 36)\<close>

text \<open>
  \<^verbatim>\<open>key in data\<close>: key lookup on a dict, element comparison on a list, substring search
  on a str, and \<^verbatim>\<open>TypeError\<close> on a value that is not iterable.
\<close>

fun contains :: "json \<Rightarrow> string \<Rightarrow> error + bool" where
  "contains (JObject d) key = Inr (key \<in> keys d)"
| "contains (JArray xs) key = Inr (JString key \<in> set xs)"
| "contains (JString s) key = Inr (sublist key s)"
| "contains JNull key = Inl TypeError"
| "contains (JBool b) key = Inl TypeError"
| "contains (JInt i) key = Inl TypeError"
| "contains (JFloat x) key = Inl TypeError"

text \<open>
  \<^verbatim>\<open>data[key]\<close> with a str key: the value stored in a dict (\<^verbatim>\<open>KeyError\<close> when there is
  none), and \<^verbatim>\<open>TypeError\<close> on every other value (a list or a str takes integer indices, the
  rest is not subscriptable).
\<close>

fun getitem :: "json \<Rightarrow> string \<Rightarrow> error + json" where
  "getitem (JObject d) key = (case map_of d key of None \<Rightarrow> Inl KeyError | Some v \<Rightarrow> Inr v)"
| "getitem (JArray xs) key = Inl TypeError"
| "getitem (JString s) key = Inl TypeError"
| "getitem JNull key = Inl TypeError"
| "getitem (JBool b) key = Inl TypeError"
| "getitem (JInt i) key = Inl TypeError"
| "getitem (JFloat x) key = Inl TypeError"

text \<open>
  \<^verbatim>\<open>{key: data[key] for key in fields_to_keep if key in data}\<close>, the keys taken in the
  order \<open>ks\<close>. The first exception ends the comprehension.
\<close>

fun filtered_data :: "string list \<Rightarrow> json \<Rightarrow> error + pydict" where
  "filtered_data [] data = Inr []"
| "filtered_data (key # ks) data =
     (case contains data key of
        Inl e \<Rightarrow> Inl e
      | Inr b \<Rightarrow>
          if b then
            (case getitem data key of
               Inl e \<Rightarrow> Inl e
             | Inr v \<Rightarrow>
                 (case filtered_data ks data of
                    Inl e \<Rightarrow> Inl e
                  | Inr d \<Rightarrow> Inr ((key, v) # d)))
          else filtered_data ks data)"

subsection \<open>Lines of a text file\<close>

definition newline :: char where
  "newline = CHR 0x0A"

text \<open>\<^verbatim>\<open>str.isspace\<close> on the code points below 256.\<close>

definition is_space :: "char \<Rightarrow> bool" where
  "is_space c \<longleftrightarrow>
     c \<in> {CHR 0x09, CHR 0x0A, CHR 0x0B, CHR 0x0C, CHR 0x0D, CHR 0x1C, CHR 0x1D,
          CHR 0x1E, CHR 0x1F, CHR 0x20, CHR 0x85, CHR 0xA0}"

text \<open>\<^verbatim>\<open>line.strip()\<close> removes the whitespace at both ends.\<close>

definition strip :: "string \<Rightarrow> string" where
  "strip s = rev (dropWhile is_space (rev (dropWhile is_space s)))"

text \<open>
  \<^verbatim>\<open>for line in f\<close>: the text cut after every newline, each line keeping its newline; the
  text after the last newline is a line of its own when it is not empty. \<open>cur\<close> is the
  line read so far.
\<close>

fun lines_from :: "string \<Rightarrow> string \<Rightarrow> string list" where
  "lines_from cur [] = (if cur = [] then [] else [cur])"
| "lines_from cur (c # cs) =
     (if c = newline then (cur @ [c]) # lines_from [] cs else lines_from (cur @ [c]) cs)"

definition readlines :: "string \<Rightarrow> string list" where
  "readlines text = lines_from [] text"

subsection \<open>The read phase (lines 24 to 42)\<close>

definition processing_msg :: "path \<Rightarrow> string" where
  "processing_msg fp = ''Processing file: '' @ fp"

definition error_msg :: "path \<Rightarrow> string \<Rightarrow> string" where
  "error_msg fp e = ''Error processing line in '' @ fp @ '': '' @ e"

definition completed_msg :: "path \<Rightarrow> string" where
  "completed_msg fp = ''Completed processing '' @ fp"

text \<open>
  The body of the loop over the lines, on the pair of \<^verbatim>\<open>processed_lines\<close> and the lines
  printed so far. Only \<^verbatim>\<open>JSONDecodeError\<close> is caught; any other exception leaves the loop.
\<close>

definition process_line ::
  "(string \<Rightarrow> string + json) \<Rightarrow> string list \<Rightarrow> path \<Rightarrow> string \<Rightarrow>
   pydict list \<times> string list \<Rightarrow> error + pydict list \<times> string list" where
  "process_line loads ks fp line st =
     (case loads (strip line) of
        Inl e \<Rightarrow> Inr (fst st, snd st @ [error_msg fp e])
      | Inr data \<Rightarrow>
          (case filtered_data ks data of
             Inl err \<Rightarrow> Inl err
           | Inr d \<Rightarrow> Inr (fst st @ [d], snd st)))"

fun read_loop ::
  "(string \<Rightarrow> string + json) \<Rightarrow> string list \<Rightarrow> path \<Rightarrow> string list \<Rightarrow>
   pydict list \<times> string list \<Rightarrow> (error + pydict list) \<times> string list" where
  "read_loop loads ks fp [] st = (Inr (fst st), snd st)"
| "read_loop loads ks fp (line # rest) st =
     (case process_line loads ks fp line st of
        Inl err \<Rightarrow> (Inl err, snd st)
      | Inr st' \<Rightarrow> read_loop loads ks fp rest st')"

subsection \<open>The file system and the console\<close>

text \<open>
  What opening a file for writing and writing to it will do: succeed, fail at
  \<^verbatim>\<open>open\<close> (the file stays as it is), or fail after \<open>n\<close> characters have reached the file.
\<close>

datatype wmode = WriteOk | OpenFails | WriteFailsAfter nat

record fnode =
  content :: string
  readable :: bool
  writing :: wmode

text \<open>
  \<open>listing\<close> is what the scan of \<^verbatim>\<open>data/code-summarization\<close> gives: the names in the
  directory, in the order of the file system, or the error the scan raises.
\<close>

record world =
  listing :: "error + string list"
  files :: "path \<rightharpoonup> fnode"
  stdout :: "string list"

definition dir_path :: path where
  "dir_path = ''data/code-summarization''"

text \<open>\<^verbatim>\<open>dir_path.glob('*.jsonl')\<close>: the paths of the names that end in \<^verbatim>\<open>.jsonl\<close>.\<close>

definition glob :: "string list \<Rightarrow> path list" where
  "glob names = map (\<lambda>n. dir_path @ ''/'' @ n) (filter (suffix ''.jsonl'') names)"

text \<open>
  The scan as \<^verbatim>\<open>pathlib\<close> runs it inside \<^verbatim>\<open>glob\<close>: the library catches the
  \<^verbatim>\<open>PermissionError\<close> of a directory that may not be read and the generator yields
  nothing; an error of another kind leaves the generator and reaches the script.
\<close>

definition select_from :: "world \<Rightarrow> error + string list" where
  "select_from w =
     (case listing w of
        Inl e \<Rightarrow> if e = PermissionError then Inr [] else Inl e
      | Inr names \<Rightarrow> Inr names)"

definition print :: "string \<Rightarrow> world \<Rightarrow> world" where
  "print s w = w\<lparr>stdout := stdout w @ [s]\<rparr>"

definition open_read :: "world \<Rightarrow> path \<Rightarrow> error + string" where
  "open_read w fp =
     (case files w fp of
        None \<Rightarrow> Inl OSError
      | Some f \<Rightarrow> if readable f then Inr (content f) else Inl OSError)"

subsection \<open>The write phase (lines 45 to 48)\<close>

text \<open>The text of the write loop: every record as \<^verbatim>\<open>json.dump\<close> writes it, then a newline.\<close>

definition encode :: "(pydict \<Rightarrow> string) \<Rightarrow> pydict list \<Rightarrow> string" where
  "encode dumps processed_lines = concat (map (\<lambda>data. dumps data @ [newline]) processed_lines)"

text \<open>
  \<^verbatim>\<open>open(file_path, 'w')\<close> empties the file (and creates a missing one); the text then
  reaches it from the start.
\<close>

definition write_back ::
  "(pydict \<Rightarrow> string) \<Rightarrow> path \<Rightarrow> pydict list \<Rightarrow> world \<Rightarrow> (error + unit) \<times> world" where
  "write_back dumps fp processed_lines w =
     (let text = encode dumps processed_lines in
      case files w fp of
        None \<Rightarrow>
          (Inr (), w\<lparr>files := (files w)(fp \<mapsto>
                      \<lparr>content = text, readable = True, writing = WriteOk\<rparr>)\<rparr>)
      | Some f \<Rightarrow>
          (case writing f of
             WriteOk \<Rightarrow> (Inr (), w\<lparr>files := (files w)(fp \<mapsto> f\<lparr>content := text\<rparr>)\<rparr>)
           | OpenFails \<Rightarrow> (Inl OSError, w)
           | WriteFailsAfter n \<Rightarrow>
               if n < length text
               then (Inl OSError, w\<lparr>files := (files w)(fp \<mapsto> f\<lparr>content := take n text\<rparr>)\<rparr>)
               else (Inr (), w\<lparr>files := (files w)(fp \<mapsto> f\<lparr>content := text\<rparr>)\<rparr>)))"

subsection \<open>One file, and the whole run (lines 20 to 50)\<close>

definition process_file ::
  "(string \<Rightarrow> string + json) \<Rightarrow> (pydict \<Rightarrow> string) \<Rightarrow> string list \<Rightarrow> path \<Rightarrow>
   world \<Rightarrow> (error + unit) \<times> world" where
  "process_file loads dumps ks fp w =
     (let w1 = print (processing_msg fp) w in
      case open_read w1 fp of
        Inl e \<Rightarrow> (Inl e, w1)
      | Inr text \<Rightarrow>
          (case read_loop loads ks fp (readlines text) ([], stdout w1) of
             (Inl e, out) \<Rightarrow> (Inl e, w1\<lparr>stdout := out\<rparr>)
           | (Inr processed_lines, out) \<Rightarrow>
               (case write_back dumps fp processed_lines (w1\<lparr>stdout := out\<rparr>) of
                  (Inl e, w2) \<Rightarrow> (Inl e, w2)
                | (Inr u, w2) \<Rightarrow> (Inr (), print (completed_msg fp) w2))))"

fun process_files ::
  "(string \<Rightarrow> string + json) \<Rightarrow> (pydict \<Rightarrow> string) \<Rightarrow> string list \<Rightarrow> path list \<Rightarrow>
   world \<Rightarrow> (error + unit) \<times> world" where
  "process_files loads dumps ks [] w = (Inr (), w)"
| "process_files loads dumps ks (fp # fps) w =
     (case process_file loads dumps ks fp w of
        (Inl e, w') \<Rightarrow> (Inl e, w')
      | (Inr u, w') \<Rightarrow> process_files loads dumps ks fps w')"

definition process_code_summarization_files ::
  "(string \<Rightarrow> string + json) \<Rightarrow> (pydict \<Rightarrow> string) \<Rightarrow> string list \<Rightarrow>
   world \<Rightarrow> (error + unit) \<times> world" where
  "process_code_summarization_files loads dumps ks w =
     (case select_from w of
        Inl e \<Rightarrow> (Inl e, w)
      | Inr names \<Rightarrow> process_files loads dumps ks (glob names) w)"

subsection \<open>The example file of the specification\<close>

text \<open>
  The specification's example file has the two lines
  \<^verbatim>\<open>{"task": "sum", "lang": "py", "extra": 1, "url": "u1"}\<close> and \<^verbatim>\<open>not valid json\<close>.
  The definitions below give this file, what \<^verbatim>\<open>json.loads\<close> returns on the texts of the
  examples, what \<^verbatim>\<open>json.dump\<close> writes for their records, and the whitelist iterated in the
  order of its declaration. They instantiate the parameters of the model at concrete
  inputs; every general statement holds for any decoder, encoder and order.
\<close>

definition declared_order :: "string list" where
  "declared_order =
     [''task'', ''lang'', ''url'', ''prompt_category'', ''prompt_id'', ''model_name'',
      ''metrics'']"

definition example_text :: string where
  \<open>example_text = ''{"task": "sum", "lang": "py", "extra": 1, "url": "u1"}''\<close>

definition example_record :: pydict where
  "example_record =
     [(''task'', JString ''sum''), (''lang'', JString ''py''), (''extra'', JInt 1),
      (''url'', JString ''u1'')]"

definition example_kept_text :: string where
  \<open>example_kept_text = ''{"task": "sum", "lang": "py", "url": "u1"}''\<close>

definition example_kept :: pydict where
  "example_kept =
     [(''task'', JString ''sum''), (''lang'', JString ''py''), (''url'', JString ''u1'')]"

text \<open>The message of the \<^verbatim>\<open>JSONDecodeError\<close> for a text that starts with no JSON value.\<close>

definition expecting_value :: string where
  "expecting_value = ''Expecting value: line 1 column 1 (char 0)''"

text \<open>
  \<^verbatim>\<open>json.loads\<close> on the texts the examples decode: the six JSON texts listed, and two
  texts that are no JSON (the empty text and \<^verbatim>\<open>not valid json\<close>), which it rejects with
  the message above. The examples decode no other text.
\<close>

definition example_loads :: "string \<Rightarrow> string + json" where
  \<open>example_loads s =
     (if s = example_text then Inr (JObject example_record)
      else if s = example_kept_text then Inr (JObject example_kept)
      else if s = ''{}'' then Inr (JObject [])
      else if s = ''5'' then Inr (JInt 5)
      else if s = ''"hello"'' then Inr (JString ''hello'')
      else if s = ''[1]'' then Inr (JArray [JInt 1])
      else Inl expecting_value)\<close>

text \<open>
  \<^verbatim>\<open>json.dump\<close> on the two records the examples write, the kept record and the empty
  dict. The examples write no other record.
\<close>

definition example_dumps :: "pydict \<Rightarrow> string" where
  "example_dumps d = (if d = example_kept then example_kept_text else ''{}'')"

definition example_path :: path where
  "example_path = ''data/code-summarization/a.jsonl''"

definition invalid_text :: string where
  "invalid_text = ''not valid json''"

definition example_file :: fnode where
  "example_file =
     \<lparr>content = example_text @ [newline] @ invalid_text, readable = True,
      writing = WriteOk\<rparr>"

definition example_world :: world where
  "example_world =
     \<lparr>listing = Inr [''a.jsonl'', ''notes.txt''],
      files = [example_path \<mapsto> example_file],
      stdout = []\<rparr>"

subsection \<open>Further example files\<close>

text \<open>A directory without a \<^verbatim>\<open>.jsonl\<close> name.\<close>

definition unmatched_world :: world where
  "unmatched_world =
     \<lparr>listing = Inr [''notes.txt'', ''a.json''],
      files = [''data/code-summarization/notes.txt'' \<mapsto> example_file],
      stdout = []\<rparr>"

text \<open>A file whose only line is the JSON number \<^verbatim>\<open>5\<close>.\<close>

definition number_text :: string where
  "number_text = ''5''"

definition number_file :: fnode where
  "number_file = \<lparr>content = number_text @ [newline], readable = True, writing = WriteOk\<rparr>"

definition number_world :: world where
  "number_world =
     \<lparr>listing = Inr [''a.jsonl''], files = [example_path \<mapsto> number_file], stdout = []\<rparr>"

text \<open>A line of one space, a line with a JSON string, and a line with a JSON array.\<close>

definition blank_line :: string where
  "blank_line = '' '' @ [newline]"

definition hello_text :: string where
  \<open>hello_text = ''"hello"''\<close>

definition array_text :: string where
  "array_text = ''[1]''"

text \<open>The example line with a space before it and a space after it.\<close>

definition padded_line :: string where
  "padded_line = '' '' @ example_text @ '' '' @ [newline]"

text \<open>
  A file with the string line and then the number line, and a file with the string line
  and then the array line.
\<close>

definition string_number_file :: fnode where
  "string_number_file =
     \<lparr>content = hello_text @ [newline] @ number_text @ [newline], readable = True,
      writing = WriteOk\<rparr>"

definition string_number_world :: world where
  "string_number_world =
     \<lparr>listing = Inr [''a.jsonl''], files = [example_path \<mapsto> string_number_file],
      stdout = []\<rparr>"

definition string_array_file :: fnode where
  "string_array_file =
     \<lparr>content = hello_text @ [newline] @ array_text @ [newline], readable = True,
      writing = WriteOk\<rparr>"

definition string_array_world :: world where
  "string_array_world =
     \<lparr>listing = Inr [''a.jsonl''], files = [example_path \<mapsto> string_array_file],
      stdout = []\<rparr>"









section \<open>Properties\<close>

subsection \<open>The comprehension\<close>

lemma filtered_data_object:
  "filtered_data ks (JObject d) =
     Inr (map (\<lambda>k. (k, the (map_of d k))) (filter (\<lambda>k. k \<in> keys d) ks))"
proof (induction ks)
  case Nil
  show ?case by simp
next
  case (Cons k ks)
  show ?case
  proof (cases "k \<in> keys d")
    case True
    then obtain v where "map_of d k = Some v"
      by (auto simp: keys_def dest: weak_map_of_SomeI)
    with True Cons show ?thesis by simp
  next
    case False
    with Cons show ?thesis by simp
  qed
qed

lemma keys_filtered:
  "keys (map (\<lambda>k. (k, the (map_of d k))) (filter (\<lambda>k. k \<in> keys d) ks)) = keys d \<inter> set ks"
proof -
  have "keys (map (\<lambda>k. (k, the (map_of d k))) xs) = set xs" for xs
    by (simp add: keys_def image_image)
  then show ?thesis by auto
qed

text \<open>The membership test guards the lookup: the comprehension raises no \<^verbatim>\<open>KeyError\<close>.\<close>

lemma filtered_data_TypeError: "filtered_data ks v = Inl e \<Longrightarrow> e = TypeError"
proof (induction ks)
  case Nil
  then show ?case by simp
next
  case (Cons k ks)
  then show ?case
    by (cases v) (auto simp: filtered_data_object split: sum.splits if_splits)
qed

lemma filtered_data_string:
  "\<forall>k\<in>set ks. \<not> sublist k s \<Longrightarrow> filtered_data ks (JString s) = Inr []"
  by (induction ks) auto

lemma filtered_data_array:
  "\<forall>k\<in>set ks. JString k \<notin> set xs \<Longrightarrow> filtered_data ks (JArray xs) = Inr []"
  by (induction ks) auto

lemma filtered_data_not_iterable:
  assumes "v = JNull \<or> (\<exists>b. v = JBool b) \<or> (\<exists>i. v = JInt i) \<or> (\<exists>x. v = JFloat x)"
    and "ks \<noteq> []"
  shows "filtered_data ks v = Inl TypeError"
  using assms by (cases ks) auto

lemma iterates_nonempty: "iterates ks fields_to_keep \<Longrightarrow> ks \<noteq> []"
proof
  assume "iterates ks fields_to_keep" and "ks = []"
  then have "''task'' \<in> set ([] :: string list)"
    by (simp add: iterates_def fields_to_keep_def)
  then show False by simp
qed

lemma filtered_data_not_object:
  "\<not> (\<exists>d. v = JObject d) \<Longrightarrow> filtered_data ks v = Inr r \<Longrightarrow> r = []"
proof (induction ks)
  case Nil
  then show ?case by simp
next
  case (Cons k ks)
  then show ?case
    by (cases v) (auto split: if_splits)
qed

lemma map_of_refiltered:
  assumes "keys r \<subseteq> set ks"
  shows "map_of (map (\<lambda>k. (k, the (map_of r k))) (filter (\<lambda>k. k \<in> keys r) ks)) = map_of r"
proof
  fix k
  show "map_of (map (\<lambda>k. (k, the (map_of r k))) (filter (\<lambda>k. k \<in> keys r) ks)) k = map_of r k"
  proof (cases "k \<in> keys r")
    case True
    then obtain v where "map_of r k = Some v"
      by (auto simp: keys_def dest: weak_map_of_SomeI)
    with True assms show ?thesis
      by (auto simp: map_of_map_restrict restrict_map_def)
  next
    case False
    then have "map_of r k = None"
      by (simp add: keys_def map_of_eq_None_iff)
    with False show ?thesis
      by (simp add: map_of_map_restrict restrict_map_def)
  qed
qed

lemma filtered_data_keys: "filtered_data ks v = Inr r \<Longrightarrow> keys r \<subseteq> set ks"
proof (cases "\<exists>d. v = JObject d")
  case True
  assume "filtered_data ks v = Inr r"
  with True show ?thesis
    by (auto simp: filtered_data_object keys_filtered)
next
  case False
  assume "filtered_data ks v = Inr r"
  with False have "r = []" by (rule filtered_data_not_object)
  then show ?thesis by (simp add: keys_def)
qed

lemma refilter_any:
  assumes "filtered_data ks v = Inr r" and "set ks \<subseteq> set ks'"
  shows "map_of (projr (filtered_data ks' (JObject r))) = map_of r"
proof -
  from assms have "keys r \<subseteq> set ks'"
    using filtered_data_keys by blast
  then show ?thesis
    by (simp add: filtered_data_object map_of_refiltered)
qed

lemma refilter_same:
  assumes "filtered_data ks v = Inr r"
  shows "filtered_data ks (JObject r) = Inr r"
proof (cases "\<exists>d. v = JObject d")
  case True
  then obtain d where v: "v = JObject d" by blast
  let ?xs = "filter (\<lambda>k. k \<in> keys d) ks"
  from assms v have r: "r = map (\<lambda>k. (k, the (map_of d k))) ?xs"
    by (simp add: filtered_data_object)
  then have kr: "keys r = set ?xs"
    by (simp add: keys_def image_image)
  then have f: "filter (\<lambda>k. k \<in> keys r) ks = ?xs"
    by (auto intro: filter_cong)
  have "map (\<lambda>k. (k, the (map_of r k))) ?xs = map (\<lambda>k. (k, the (map_of d k))) ?xs"
  proof (rule map_cong [OF refl])
    fix k assume "k \<in> set ?xs"
    then have "map_of r k = Some (the (map_of d k))"
      unfolding r by (simp add: map_of_map_restrict restrict_map_def)
    then show "(k, the (map_of r k)) = (k, the (map_of d k))" by simp
  qed
  with f r show ?thesis
    by (simp add: filtered_data_object)
next
  case False
  with assms have "r = []" by (rule filtered_data_not_object [rotated])
  then show ?thesis
    by (simp add: filtered_data_object keys_def)
qed

lemma filtered_data_raises_iff:
  "isl (filtered_data ks v) \<longleftrightarrow>
     (case v of
        JObject d \<Rightarrow> False
      | JString s \<Rightarrow> \<exists>k\<in>set ks. sublist k s
      | JArray xs \<Rightarrow> \<exists>k\<in>set ks. JString k \<in> set xs
      | _ \<Rightarrow> ks \<noteq> [])"
proof (induction ks)
  case Nil
  show ?case by (cases v) simp_all
next
  case (Cons k ks)
  then show ?case
    by (cases v) (auto simp: filtered_data_object split: sum.splits)
qed

lemma filtered_data_raises_order:
  "set ks = set ks' \<Longrightarrow> isl (filtered_data ks v) = isl (filtered_data ks' v)"
proof -
  assume s: "set ks = set ks'"
  then have "ks \<noteq> [] \<longleftrightarrow> ks' \<noteq> []"
    by (metis set_empty)
  with s show ?thesis
    by (simp add: filtered_data_raises_iff split: json.splits)
qed

subsection \<open>Lines and whitespace\<close>

lemma lines_from_line:
  "newline \<notin> set s \<Longrightarrow>
   lines_from cur (s @ newline # rest) = (cur @ s @ [newline]) # lines_from [] rest"
  by (induction s arbitrary: cur) auto

lemma readlines_encode:
  "\<forall>d\<in>set rs. newline \<notin> set (dumps d) \<Longrightarrow>
   readlines (encode dumps rs) = map (\<lambda>d. dumps d @ [newline]) rs"
  unfolding readlines_def encode_def
proof (induction rs)
  case Nil
  show ?case by simp
next
  case (Cons r rs)
  then show ?case by (simp add: lines_from_line)
qed

lemma strip_spaces: "\<forall>c\<in>set s. is_space c \<Longrightarrow> strip s = []"
proof -
  assume "\<forall>c\<in>set s. is_space c"
  then have e: "dropWhile is_space s = []" by simp
  show ?thesis unfolding strip_def e by simp
qed

lemma length_valid:
  "length (filter (\<lambda>x. \<not> P x) xs) = length xs - length (filter P xs)"
  using sum_length_filter_compl [of P xs] by simp

lemma strip_decomposition:
  "\<exists>a b. line = a @ strip line @ b \<and> (\<forall>c\<in>set a. is_space c) \<and> (\<forall>c\<in>set b. is_space c)"
proof -
  let ?a = "takeWhile is_space line"
  let ?rest = "dropWhile is_space line"
  let ?b = "rev (takeWhile is_space (rev ?rest))"
  have "rev (dropWhile is_space (rev ?rest)) @ ?b
      = rev (takeWhile is_space (rev ?rest) @ dropWhile is_space (rev ?rest))"
    by (simp only: rev_append)
  also have "\<dots> = rev (rev ?rest)"
    by (simp only: takeWhile_dropWhile_id)
  also have "\<dots> = ?rest"
    by simp
  finally have "?rest = strip line @ ?b"
    by (simp only: strip_def)
  then have "?a @ ?rest = ?a @ strip line @ ?b"
    by simp
  then have "line = ?a @ strip line @ ?b"
    by simp
  moreover have "\<forall>c\<in>set ?a. is_space c"
    by (auto dest: set_takeWhileD)
  moreover have "\<forall>c\<in>set ?b. is_space c"
    by (auto dest: set_takeWhileD)
  ultimately show ?thesis by blast
qed

lemma strip_ends:
  assumes "strip line \<noteq> []"
  shows "\<not> is_space (hd (strip line)) \<and> \<not> is_space (last (strip line))"
proof -
  let ?rest = "dropWhile is_space line"
  let ?core = "dropWhile is_space (rev ?rest)"
  from assms have core: "?core \<noteq> []"
    by (simp add: strip_def)
  then have rest: "?rest \<noteq> []"
    by (metis dropWhile.simps(1) rev.simps(1))
  have "last (strip line) = hd ?core"
    using core by (simp add: strip_def last_rev)
  moreover from core have "\<not> is_space (hd ?core)"
    by (rule hd_dropWhile)
  moreover have "hd (strip line) = last ?core"
    using core by (simp add: strip_def hd_rev)
  moreover have "last ?core = last (rev ?rest)"
  proof -
    have "last (takeWhile is_space (rev ?rest) @ ?core) = last ?core"
      using core by (rule last_appendR)
    then show ?thesis by simp
  qed
  moreover have "last (rev ?rest) = hd ?rest"
    using rest by (simp add: last_rev)
  moreover from rest have "\<not> is_space (hd ?rest)"
    by (rule hd_dropWhile)
  ultimately show ?thesis by simp
qed

lemma readlines_two:
  assumes "newline \<notin> set a" and "newline \<notin> set b"
  shows "readlines (a @ [newline] @ b @ [newline]) = [a @ [newline], b @ [newline]]"
proof -
  from assms(1) have "lines_from [] (a @ newline # (b @ [newline]))
      = ([] @ a @ [newline]) # lines_from [] (b @ [newline])"
    by (rule lines_from_line)
  moreover from assms(2) have "lines_from [] (b @ newline # [])
      = ([] @ b @ [newline]) # lines_from [] []"
    by (rule lines_from_line)
  ultimately show ?thesis
    by (simp add: readlines_def)
qed

subsection \<open>The read loop, one file, the run\<close>

lemma process_line_decode_error:
  "loads (strip line) = Inl e \<Longrightarrow>
   process_line loads ks fp line (pl, out) = Inr (pl, out @ [error_msg fp e])"
  by (simp add: process_line_def)

lemma process_line_kept:
  "loads (strip line) = Inr v \<Longrightarrow> filtered_data ks v = Inr d \<Longrightarrow>
   process_line loads ks fp line (pl, out) = Inr (pl @ [d], out)"
  by (simp add: process_line_def)

lemma process_line_raises:
  "loads (strip line) = Inr v \<Longrightarrow> filtered_data ks v = Inl e \<Longrightarrow>
   process_line loads ks fp line st = Inl e"
  by (simp add: process_line_def)

lemma read_loop_accepted:
  assumes "\<forall>line\<in>set lines. \<forall>v. loads (strip line) = Inr v \<longrightarrow> \<not> isl (filtered_data ks v)"
  shows "read_loop loads ks fp lines (pl, out) =
           (Inr (pl @ map (\<lambda>l. projr (filtered_data ks (projr (loads (strip l)))))
                       (filter (\<lambda>l. \<not> isl (loads (strip l))) lines)),
            out @ map (\<lambda>l. error_msg fp (projl (loads (strip l))))
                       (filter (\<lambda>l. isl (loads (strip l))) lines))"
  using assms
proof (induction lines arbitrary: pl out)
  case Nil
  show ?case by simp
next
  case (Cons line rest)
  show ?case
  proof (cases "loads (strip line)")
    case (Inl e)
    with Cons show ?thesis by (simp add: process_line_decode_error)
  next
    case (Inr v)
    with Cons.prems obtain d where d: "filtered_data ks v = Inr d"
      by (cases "filtered_data ks v") auto
    with Inr Cons show ?thesis by (simp add: process_line_kept)
  qed
qed

lemma read_loop_raises:
  assumes "\<exists>line\<in>set lines. \<exists>v. loads (strip line) = Inr v \<and> isl (filtered_data ks v)"
  shows "fst (read_loop loads ks fp lines st) = Inl TypeError"
  using assms
proof (induction lines arbitrary: st)
  case Nil
  then show ?case by simp
next
  case (Cons line rest)
  show ?case
  proof (cases "process_line loads ks fp line st")
    case (Inl e)
    then have "e = TypeError"
      by (auto simp: process_line_def split: sum.splits dest: filtered_data_TypeError)
    with Inl show ?thesis by simp
  next
    case (Inr st')
    then have "\<not> (\<exists>v. loads (strip line) = Inr v \<and> isl (filtered_data ks v))"
      by (auto simp: process_line_def split: sum.splits)
    with Cons.prems have "\<exists>l\<in>set rest. \<exists>v. loads (strip l) = Inr v \<and> isl (filtered_data ks v)"
      by auto
    with Cons.IH Inr show ?thesis by simp
  qed
qed


lemma process_file_read_raises:
  assumes "files w fp = Some f" and "readable f"
    and "read_loop loads ks fp (readlines (content f)) ([], stdout w @ [processing_msg fp]) = (Inl e, out)"
  shows "process_file loads dumps ks fp w = (Inl e, w\<lparr>stdout := out\<rparr>)"
  using assms by (simp add: process_file_def open_read_def print_def Let_def)

lemma process_file_written:
  assumes "files w fp = Some f" and "readable f" and "writing f = WriteOk"
    and "read_loop loads ks fp (readlines (content f)) ([], stdout w @ [processing_msg fp]) = (Inr rs, out)"
  shows "process_file loads dumps ks fp w =
           (Inr (), w\<lparr>files := (files w)(fp \<mapsto> f\<lparr>content := encode dumps rs\<rparr>),
                      stdout := out @ [completed_msg fp]\<rparr>)"
  using assms by (simp add: process_file_def open_read_def write_back_def print_def Let_def)


lemma write_back_listing: "listing (snd (write_back dumps fp rs w)) = listing w"
  by (simp add: write_back_def Let_def split: option.splits wmode.splits)



lemma process_files_append:
  "process_files loads dumps ks (xs @ ys) w =
     (case process_files loads dumps ks xs w of
        (Inl e, w') \<Rightarrow> (Inl e, w')
      | (Inr u, w') \<Rightarrow> process_files loads dumps ks ys w')"
  by (induction xs arbitrary: w) (auto split: prod.splits sum.splits)

lemma process_files_stops:
  assumes "process_files loads dumps ks before w = (Inr (), w1)"
    and "process_file loads dumps ks fp w1 = (Inl e, w2)"
  shows "process_files loads dumps ks (before @ fp # after) w = (Inl e, w2)"
  using assms by (simp add: process_files_append)

lemma process_file_TypeError:
  assumes "files w fp = Some f" and "readable f"
    and "line \<in> set (readlines (content f))"
    and "loads (strip line) = Inr v"
    and "isl (filtered_data ks v)"
  shows "\<exists>w'. process_file loads dumps ks fp w = (Inl TypeError, w') \<and> files w' = files w"
proof -
  let ?st = "([], stdout w @ [processing_msg fp])"
  from assms(3-5)
  have "fst (read_loop loads ks fp (readlines (content f)) ?st) = Inl TypeError"
    by (intro read_loop_raises) blast
  then obtain out where
    "read_loop loads ks fp (readlines (content f)) ?st = (Inl TypeError, out)"
    by (cases "read_loop loads ks fp (readlines (content f)) ?st") auto
  with assms(1,2) show ?thesis
    by (simp add: process_file_read_raises)
qed

lemma read_loop_records:
  "read_loop loads ks fp lines (pl, out) = (Inr rs, out') \<Longrightarrow>
   \<exists>new. rs = pl @ new \<and> (\<forall>r\<in>set new. \<exists>v. filtered_data ks v = Inr r)"
proof (induction lines arbitrary: pl out)
  case Nil
  then show ?case by simp
next
  case (Cons line rest)
  show ?case
  proof (cases "loads (strip line)")
    case (Inl e)
    with Cons.prems
    have "read_loop loads ks fp rest (pl, out @ [error_msg fp e]) = (Inr rs, out')"
      by (simp add: process_line_decode_error)
    then show ?thesis by (rule Cons.IH)
  next
    case (Inr v)
    show ?thesis
    proof (cases "filtered_data ks v")
      case (Inl err)
      with Inr Cons.prems show ?thesis
        by (simp add: process_line_raises)
    next
      case kept: (Inr d)
      with Inr Cons.prems
      have "read_loop loads ks fp rest (pl @ [d], out) = (Inr rs, out')"
        by (simp add: process_line_kept)
      from Cons.IH [OF this] obtain new where
        "rs = (pl @ [d]) @ new" "\<forall>r\<in>set new. \<exists>v. filtered_data ks v = Inr r"
        by blast
      with kept show ?thesis
        by (intro exI [of _ "d # new"]) auto
    qed
  qed
qed

lemma read_loop_rewritten:
  assumes "\<forall>r\<in>set rs. loads (strip (dumps r @ [newline])) = Inr (JObject r)"
  shows "read_loop loads ks fp (map (\<lambda>r. dumps r @ [newline]) rs) (pl, out)
           = (Inr (pl @ map (\<lambda>r. projr (filtered_data ks (JObject r))) rs), out)"
  using assms
proof (induction rs arbitrary: pl)
  case Nil
  show ?case by simp
next
  case (Cons r rs)
  have "filtered_data ks (JObject r) = Inr (projr (filtered_data ks (JObject r)))"
    by (simp add: filtered_data_object)
  with Cons.prems
  have "process_line loads ks fp (dumps r @ [newline]) (pl, out)
          = Inr (pl @ [projr (filtered_data ks (JObject r))], out)"
    by (intro process_line_kept) simp_all
  with Cons show ?case by simp
qed


lemma read_loop_raised:
  "fst (read_loop loads ks fp lines st) = Inl e \<Longrightarrow>
   \<exists>line\<in>set lines. \<exists>v. loads (strip line) = Inr v \<and> isl (filtered_data ks v)"
proof (induction lines arbitrary: st)
  case Nil
  then show ?case by simp
next
  case (Cons line rest)
  show ?case
  proof (cases "process_line loads ks fp line st")
    case (Inl err)
    then have "\<exists>v. loads (strip line) = Inr v \<and> isl (filtered_data ks v)"
      by (auto simp: process_line_def split: sum.splits)
    then show ?thesis by simp
  next
    case (Inr st')
    with Cons.prems have "fst (read_loop loads ks fp rest st') = Inl e"
      by simp
    from Cons.IH [OF this] show ?thesis by simp
  qed
qed

lemma rewrite_twice_completed:
  assumes "files w fp = Some f" and "readable f" and "writing f = WriteOk"
    and "read_loop loads ks fp (readlines (content f)) ([], stdout w @ [processing_msg fp])
           = (Inr R1, out1)"
    and "\<forall>r\<in>set R1. newline \<notin> set (dumps r)
           \<and> loads (strip (dumps r @ [newline])) = Inr (JObject r)"
    and "iterates ks fields_to_keep" and "iterates ks' fields_to_keep"
  shows "\<exists>w1 w2 R2.
      process_file loads dumps ks fp w = (Inr (), w1)
    \<and> files w1 = (files w)(fp \<mapsto> f\<lparr>content := encode dumps R1\<rparr>)
    \<and> process_file loads dumps ks' fp w1 = (Inr (), w2)
    \<and> files w2 = (files w)(fp \<mapsto> f\<lparr>content := encode dumps R2\<rparr>)
    \<and> map map_of R2 = map map_of R1
    \<and> (ks' = ks \<longrightarrow> R2 = R1 \<and> files w2 = files w1)"
proof -
  let ?f1 = "f\<lparr>content := encode dumps R1\<rparr>"
  let ?w1 = "w\<lparr>files := (files w)(fp \<mapsto> ?f1), stdout := out1 @ [completed_msg fp]\<rparr>"
  let ?R2 = "map (\<lambda>r. projr (filtered_data ks' (JObject r))) R1"
  let ?out2 = "stdout ?w1 @ [processing_msg fp]"
  let ?f2 = "?f1\<lparr>content := encode dumps ?R2\<rparr>"
  let ?w2 = "?w1\<lparr>files := (files ?w1)(fp \<mapsto> ?f2), stdout := ?out2 @ [completed_msg fp]\<rparr>"
  from process_file_written [OF assms(1-4), of dumps]
  have run1: "process_file loads dumps ks fp w = (Inr (), ?w1)" .
  have f1: "files ?w1 fp = Some ?f1" "readable ?f1" "writing ?f1 = WriteOk"
    using assms(2,3) by simp_all
  from assms(5) have "readlines (encode dumps R1) = map (\<lambda>r. dumps r @ [newline]) R1"
    by (intro readlines_encode) simp
  moreover from assms(5)
  have "read_loop loads ks' fp (map (\<lambda>r. dumps r @ [newline]) R1) ([], ?out2)
          = (Inr ([] @ ?R2), ?out2)"
    by (intro read_loop_rewritten) simp
  ultimately
  have "read_loop loads ks' fp (readlines (content ?f1)) ([], ?out2) = (Inr ?R2, ?out2)"
    by simp
  from process_file_written [OF f1 this, of dumps]
  have run2: "process_file loads dumps ks' fp ?w1 = (Inr (), ?w2)" .
  have files2: "files ?w2 = (files w)(fp \<mapsto> f\<lparr>content := encode dumps ?R2\<rparr>)"
    by simp
  from read_loop_records [OF assms(4)]
  have kept: "\<forall>r\<in>set R1. \<exists>v. filtered_data ks v = Inr r"
    by simp
  from assms(6,7) have "set ks \<subseteq> set ks'"
    by (simp add: iterates_def)
  with kept have "map_of (projr (filtered_data ks' (JObject r))) = map_of r" if "r \<in> set R1" for r
    using that refilter_any by blast
  then have same_records: "map map_of ?R2 = map map_of R1"
    by simp
  from kept have "projr (filtered_data ks (JObject r)) = r" if "r \<in> set R1" for r
    using that refilter_same by fastforce
  then have "map (\<lambda>r. projr (filtered_data ks (JObject r))) R1 = R1"
    by (simp add: map_idI)
  then have same_order: "ks' = ks \<longrightarrow> ?R2 = R1 \<and> files ?w2 = files ?w1"
    by simp
  from run1 run2 files2 same_records same_order show ?thesis
    by (intro exI [of _ ?w1] exI [of _ ?w2] exI [of _ ?R2]) simp
qed

lemma rewrite_twice_raised:
  assumes "files w fp = Some f" and "readable f" and "set ks = set ks'"
    and "fst (read_loop loads ks fp (readlines (content f))
               ([], stdout w @ [processing_msg fp])) = Inl e"
  shows "\<exists>w1 w2. process_file loads dumps ks fp w = (Inl e, w1) \<and> files w1 = files w
           \<and> process_file loads dumps ks' fp w1 = (Inl e, w2) \<and> files w2 = files w"
proof -
  from read_loop_raised [OF assms(4)] obtain line v where
    line: "line \<in> set (readlines (content f))" "loads (strip line) = Inr v"
    and raises: "isl (filtered_data ks v)"
    by blast
  have "\<exists>l\<in>set (readlines (content f)). \<exists>u. loads (strip l) = Inr u \<and> isl (filtered_data ks u)"
    using line raises by blast
  then have "fst (read_loop loads ks fp (readlines (content f))
                    ([], stdout w @ [processing_msg fp])) = Inl TypeError"
    by (rule read_loop_raises)
  with assms(4) have e: "e = TypeError" by simp
  have "\<exists>w'. process_file loads dumps ks fp w = (Inl TypeError, w') \<and> files w' = files w"
    using assms(1,2) line raises by (rule process_file_TypeError)
  then obtain w1 where
    w1: "process_file loads dumps ks fp w = (Inl TypeError, w1)" and f1: "files w1 = files w"
    by (elim exE conjE)
  from raises filtered_data_raises_order [OF assms(3), of v]
  have raises': "isl (filtered_data ks' v)"
    by simp
  from f1 assms(1) have "files w1 fp = Some f" by simp
  then have "\<exists>w'. process_file loads dumps ks' fp w1 = (Inl TypeError, w') \<and> files w' = files w1"
    using assms(2) line raises' by (rule process_file_TypeError)
  then obtain w2 where
    w2: "process_file loads dumps ks' fp w1 = (Inl TypeError, w2)" and f2: "files w2 = files w1"
    by (elim exE conjE)
  show ?thesis
    unfolding e using w1 f1 w2 f2 by (intro exI [of _ w1] exI [of _ w2]) simp
qed

lemma process_file_accepted:
  assumes "files w fp = Some f" and "readable f" and "writing f = WriteOk"
    and "\<forall>line\<in>set (readlines (content f)). \<forall>v.
           loads (strip line) = Inr v \<longrightarrow> \<not> isl (filtered_data ks v)"
  shows "process_file loads dumps ks fp w =
     (Inr (),
      w\<lparr>files := (files w)(fp \<mapsto> f\<lparr>content := encode dumps
                 (map (\<lambda>l. projr (filtered_data ks (projr (loads (strip l)))))
                    (filter (\<lambda>l. \<not> isl (loads (strip l))) (readlines (content f))))\<rparr>),
        stdout := ((stdout w @ [processing_msg fp])
                   @ map (\<lambda>l. error_msg fp (projl (loads (strip l))))
                       (filter (\<lambda>l. isl (loads (strip l))) (readlines (content f))))
                  @ [completed_msg fp]\<rparr>)"
proof -
  from read_loop_accepted [OF assms(4), of fp "[]" "stdout w @ [processing_msg fp]"]
  have "read_loop loads ks fp (readlines (content f)) ([], stdout w @ [processing_msg fp])
      = (Inr (map (\<lambda>l. projr (filtered_data ks (projr (loads (strip l)))))
                (filter (\<lambda>l. \<not> isl (loads (strip l))) (readlines (content f)))),
         (stdout w @ [processing_msg fp])
           @ map (\<lambda>l. error_msg fp (projl (loads (strip l))))
               (filter (\<lambda>l. isl (loads (strip l))) (readlines (content f))))"
    by simp
  from process_file_written [OF assms(1-3) this, of dumps]
  show ?thesis .
qed

subsection \<open>Facts of the example\<close>

lemma iterates_declared_order: "iterates declared_order fields_to_keep"
  by (auto simp: iterates_def declared_order_def fields_to_keep_def)

lemma strip_example_text: "strip (example_text @ [newline]) = example_text"
  by (simp add: strip_def example_text_def is_space_def newline_def)

lemma loads_example_line:
  "example_loads (strip (example_text @ [newline])) = Inr (JObject example_record)"
  by (simp add: strip_example_text example_loads_def)

lemma filtered_example_record:
  "filtered_data declared_order (JObject example_record) = Inr example_kept"
  by (simp add: declared_order_def example_record_def example_kept_def keys_def)

lemma process_example_line:
  "process_line example_loads declared_order example_path (example_text @ [newline]) ([], [])
     = Inr ([example_kept], [])"
  by (simp add: process_line_def loads_example_line filtered_example_record)

lemma glob_a: "glob [''a.jsonl''] = [] @ example_path # []"
  by (simp add: glob_def dir_path_def example_path_def suffix_to_prefix)

lemma readlines_number: "readlines (content number_file) = [number_text @ [newline]]"
  by (simp add: number_file_def number_text_def readlines_def newline_def)

lemma loads_number: "example_loads (strip (number_text @ [newline])) = Inr (JInt 5)"
  by (simp add: number_text_def strip_def is_space_def newline_def example_loads_def
      example_text_def example_kept_text_def)

lemma loads_hello: "example_loads (strip (hello_text @ [newline])) = Inr (JString ''hello'')"
  by (simp add: hello_text_def strip_def is_space_def newline_def example_loads_def
      example_text_def example_kept_text_def)

lemma loads_array: "example_loads (strip (array_text @ [newline])) = Inr (JArray [JInt 1])"
  by (simp add: array_text_def strip_def is_space_def newline_def example_loads_def
      example_text_def example_kept_text_def)

lemma dumps_empty: \<open>example_dumps [] = ''{}''\<close>
  by (simp add: example_dumps_def example_kept_def)

lemma readlines_example: "readlines (content example_file) = [example_text @ [newline], invalid_text]"
proof -
  have "newline \<notin> set example_text"
    by (simp add: example_text_def newline_def)
  then have "lines_from [] (example_text @ newline # invalid_text)
      = ([] @ example_text @ [newline]) # lines_from [] invalid_text"
    by (rule lines_from_line)
  moreover have "lines_from [] invalid_text = [invalid_text]"
    by (simp add: invalid_text_def newline_def)
  ultimately show ?thesis
    by (simp add: readlines_def example_file_def)
qed

lemma loads_invalid: "example_loads (strip invalid_text) = Inl expecting_value"
  by (simp add: invalid_text_def strip_def is_space_def example_loads_def
      example_text_def example_kept_text_def)

lemma dumps_no_newline: "newline \<notin> set (example_dumps d)"
  by (simp add: example_dumps_def example_kept_text_def newline_def)

lemma dumps_kept: "example_dumps example_kept = example_kept_text"
  by (simp add: example_dumps_def)

lemma example_world_file:
  "files example_world example_path = Some example_file" "readable example_file"
  "writing example_file = WriteOk" "stdout example_world = []"
  by (simp_all add: example_world_def example_file_def)

lemma number_world_file:
  "listing number_world = Inr [''a.jsonl'']"
  "files number_world example_path = Some number_file" "readable number_file"
  "stdout number_world = []"
  by (simp_all add: number_world_def number_file_def)

lemma process_number_line:
  "process_line example_loads declared_order example_path (number_text @ [newline]) st
     = Inl TypeError"
  by (simp add: process_line_def loads_number declared_order_def)

lemma read_loop_example:
  "read_loop example_loads declared_order example_path (readlines (content example_file))
     ([], stdout example_world @ [processing_msg example_path])
   = (Inr [example_kept], [processing_msg example_path, error_msg example_path expecting_value])"
  by (simp add: readlines_example process_line_def loads_example_line loads_invalid
      filtered_example_record example_world_file)

lemma read_loop_number:
  "read_loop example_loads declared_order example_path (readlines (content number_file))
     ([], stdout number_world @ [processing_msg example_path])
   = (Inl TypeError, [processing_msg example_path])"
  by (simp add: readlines_number process_number_line number_world_file)

lemma loads_kept_line:
  "example_loads (strip (example_dumps example_kept @ [newline])) = Inr (JObject example_kept)"
proof -
  have "strip (example_kept_text @ [newline]) = example_kept_text"
    by (simp add: strip_def example_kept_text_def is_space_def newline_def)
  moreover have "example_loads example_kept_text = Inr (JObject example_kept)"
    by (simp add: example_loads_def example_text_def example_kept_text_def)
  ultimately show ?thesis by (simp add: dumps_kept)
qed

lemma iterates_rev_declared_order: "iterates (rev declared_order) fields_to_keep"
  using iterates_declared_order by (simp add: iterates_def)











lemma number_writable: "writing number_file = WriteOk"
  by (simp add: number_file_def)

lemma strip_padded: "strip padded_line = example_text"
  by (simp add: padded_line_def strip_def example_text_def is_space_def newline_def)

lemma padded_parts: "padded_line = '' '' @ example_text @ ('' '' @ [newline])"
  by (simp add: padded_line_def)

lemma blank_line_spaces:
  "blank_line = [CHR 0x20, newline]" "is_space (CHR 0x20)" "is_space newline"
  by (simp_all add: blank_line_def is_space_def newline_def)

lemma loads_empty: "example_loads [] = Inl expecting_value"
  by (simp add: example_loads_def example_text_def example_kept_text_def)

lemma no_newline_texts: "newline \<notin> set hello_text" "newline \<notin> set number_text"
  "newline \<notin> set array_text"
  by (simp_all add: hello_text_def number_text_def array_text_def newline_def)

lemma readlines_string_number:
  "readlines (content string_number_file) = [hello_text @ [newline], number_text @ [newline]]"
  using readlines_two [OF no_newline_texts(1,2)] by (simp add: string_number_file_def)

lemma readlines_string_array:
  "readlines (content string_array_file) = [hello_text @ [newline], array_text @ [newline]]"
  using readlines_two [OF no_newline_texts(1,3)] by (simp add: string_array_file_def)

lemma hello_no_key: "\<forall>k\<in>fields_to_keep. \<not> sublist k ''hello''"
  by (simp add: fields_to_keep_def sublist_code prefix_code)

lemma filtered_hello: "filtered_data declared_order (JString ''hello'') = Inr []"
  using hello_no_key iterates_declared_order
  by (intro filtered_data_string) (simp add: iterates_def)

lemma filtered_array: "filtered_data declared_order (JArray [JInt 1]) = Inr []"
  by (intro filtered_data_array) simp

lemma process_hello_line:
  "process_line example_loads declared_order example_path (hello_text @ [newline]) (pl, out)
     = Inr (pl @ [[]], out)"
  using loads_hello filtered_hello by (rule process_line_kept)

lemma string_number_world_file:
  "files string_number_world example_path = Some string_number_file"
  "readable string_number_file" "writing string_number_file = WriteOk"
  "stdout string_number_world = []"
  by (simp_all add: string_number_world_def string_number_file_def)

lemma string_array_world_file:
  "files string_array_world example_path = Some string_array_file"
  "readable string_array_file" "writing string_array_file = WriteOk"
  "stdout string_array_world = []"
  by (simp_all add: string_array_world_def string_array_file_def)

subsection \<open>The keys and values of a kept record\<close>

text \<open>
  C1. A line that decodes to a JSON object \<open>obj\<close> appends one record \<open>R\<close> to
  \<^verbatim>\<open>processed_lines\<close>, and the keys of \<open>R\<close> are the keys of \<open>obj\<close> that are in the whitelist:
  nothing outside the whitelist stays, nothing is added, and a whitelisted key that
  \<open>obj\<close> lacks is left out.
\<close>

theorem key_subset:
  assumes "loads (strip line) = Inr (JObject obj)"
    and "iterates ks fields_to_keep"
  shows "\<exists>R. process_line loads ks fp line (processed_lines, out)
              = Inr (processed_lines @ [R], out)
           \<and> keys R = keys obj \<inter> fields_to_keep"
  using assms by (simp add: process_line_def filtered_data_object keys_filtered iterates_def)

theorem key_subset_witness:
  "example_loads (strip (example_text @ [newline])) = Inr (JObject example_record)
   \<and> iterates declared_order fields_to_keep
   \<and> process_line example_loads declared_order example_path (example_text @ [newline]) ([], [])
       = Inr ([example_kept], [])
   \<and> keys example_kept = keys example_record \<inter> fields_to_keep"
proof -
  from key_subset [of example_loads "example_text @ [newline]" example_record declared_order
      example_path "[]" "[]", OF loads_example_line iterates_declared_order]
  obtain R where
    "process_line example_loads declared_order example_path (example_text @ [newline]) ([], [])
       = Inr ([R], [])"
    and "keys R = keys example_record \<inter> fields_to_keep"
    by auto
  then show ?thesis
    by (simp add: process_example_line loads_example_line iterates_declared_order)
qed

text \<open>
  C2. For a line that decodes to a JSON object \<open>obj\<close>, every key that the appended record
  \<open>R\<close> shares with \<open>obj\<close> has in \<open>R\<close> the value it has in \<open>obj\<close>.
\<close>

theorem values_verbatim:
  assumes "loads (strip line) = Inr (JObject obj)"
  shows "\<exists>R. process_line loads ks fp line (processed_lines, out)
              = Inr (processed_lines @ [R], out)
           \<and> (\<forall>k \<in> keys obj \<inter> keys R. map_of R k = map_of obj k)"
proof -
  let ?R = "map (\<lambda>k. (k, the (map_of obj k))) (filter (\<lambda>k. k \<in> keys obj) ks)"
  have "map_of ?R k = map_of obj k" if "k \<in> keys obj" "k \<in> keys ?R" for k
  proof -
    from that(2) have "k \<in> set (filter (\<lambda>k. k \<in> keys obj) ks)"
      by (simp add: keys_filtered)
    then have "map_of ?R k = Some (the (map_of obj k))"
      by (simp add: map_of_map_restrict restrict_map_def)
    moreover from that(1) obtain v where "map_of obj k = Some v"
      by (auto simp: keys_def dest: weak_map_of_SomeI)
    ultimately show ?thesis by simp
  qed
  with assms show ?thesis
    by (simp add: process_line_def filtered_data_object)
qed

theorem values_verbatim_witness:
  "example_loads (strip (example_text @ [newline])) = Inr (JObject example_record)
   \<and> process_line example_loads declared_order example_path (example_text @ [newline]) ([], [])
       = Inr ([example_kept], [])
   \<and> ''url'' \<in> keys example_record \<inter> keys example_kept
   \<and> map_of example_kept ''url'' = map_of example_record ''url''"
proof -
  from values_verbatim [of example_loads "example_text @ [newline]" example_record
      declared_order example_path "[]" "[]", OF loads_example_line]
  obtain R where
    "process_line example_loads declared_order example_path (example_text @ [newline]) ([], [])
       = Inr ([R], [])"
    and "\<forall>k \<in> keys example_record \<inter> keys R. map_of R k = map_of example_record k"
    by auto
  moreover have "''url'' \<in> keys example_record \<inter> keys example_kept"
    by (simp add: keys_def example_record_def example_kept_def)
  ultimately show ?thesis
    by (simp add: process_example_line loads_example_line)
qed

subsection \<open>A directory without matching files\<close>

text \<open>
  C5. When the enumeration of the directory succeeds and no name in it ends in
  \<^verbatim>\<open>.jsonl\<close>, the run ends normally and leaves the world as it was: no file is changed,
  nothing is printed, no error is raised.
\<close>

theorem empty_match_noop:
  assumes "listing w = Inr names" and "\<forall>n\<in>set names. \<not> suffix ''.jsonl'' n"
  shows "process_code_summarization_files loads dumps ks w = (Inr (), w)"
proof -
  from assms(2) have "glob names = []"
    by (simp add: glob_def)
  with assms(1) show ?thesis
    by (simp add: process_code_summarization_files_def select_from_def)
qed

theorem empty_match_noop_witness:
  "listing unmatched_world = Inr [''notes.txt'', ''a.json'']
   \<and> \<not> suffix ''.jsonl'' ''notes.txt'' \<and> \<not> suffix ''.jsonl'' ''a.json''
   \<and> process_code_summarization_files example_loads example_dumps declared_order unmatched_world
       = (Inr (), unmatched_world)"
proof -
  have l: "listing unmatched_world = Inr [''notes.txt'', ''a.json'']"
    by (simp add: unmatched_world_def)
  have n: "\<forall>n\<in>set [''notes.txt'', ''a.json'']. \<not> suffix ''.jsonl'' n"
    by (simp add: suffix_to_prefix)
  from empty_match_noop [OF l n, of example_loads example_dumps declared_order] l n
  show ?thesis by simp
qed

subsection \<open>Blank lines\<close>

text \<open>
  C6, as stated, fails: the script has no test for an empty line. A line of one space is
  stripped to the empty text and decoded like any other line; \<^verbatim>\<open>json.loads\<close> rejects the
  empty text, and the diagnostic is printed.
\<close>

theorem blank_line_counterexample:
  "process_line example_loads declared_order example_path blank_line ([], [])
     = Inr ([], [error_msg example_path expecting_value])"
  by (simp add: process_line_def blank_line_def strip_def is_space_def newline_def
      example_loads_def example_text_def example_kept_text_def)

text \<open>
  C6, amended. Every line is decoded, the empty and the blank line too. The text given to
  the decoder is the line without the whitespace at its end (and without the whitespace
  at its start), and the decoder's answer on this text alone decides what becomes of the
  line: a diagnostic when it rejects the text, the comprehension when it returns a value.
  A line of whitespace only reaches the decoder as the empty text; a decoder that rejects
  the empty text (with the message \<open>e\<close>) makes the script print the parse-error
  diagnostic for the line and drop it, and \<^verbatim>\<open>processed_lines\<close> is unchanged.
\<close>

theorem every_line_decoded:
  "(\<exists>a b. line = a @ strip line @ b \<and> (\<forall>c\<in>set a. is_space c) \<and> (\<forall>c\<in>set b. is_space c))
   \<and> (strip line \<noteq> [] \<longrightarrow> \<not> is_space (hd (strip line)) \<and> \<not> is_space (last (strip line)))
   \<and> (loads (strip line) = Inl e
        \<longrightarrow> process_line loads ks fp line (processed_lines, out)
              = Inr (processed_lines, out @ [error_msg fp e]))
   \<and> (loads (strip line) = Inr v
        \<longrightarrow> process_line loads ks fp line (processed_lines, out)
              = (case filtered_data ks v of
                   Inl err \<Rightarrow> Inl err
                 | Inr d \<Rightarrow> Inr (processed_lines @ [d], out)))
   \<and> ((\<forall>c\<in>set line. is_space c) \<and> loads [] = Inl e
        \<longrightarrow> strip line = []
            \<and> process_line loads ks fp line (processed_lines, out)
                = Inr (processed_lines, out @ [error_msg fp e]))"
proof (intro conjI impI)
  show "\<exists>a b. line = a @ strip line @ b \<and> (\<forall>c\<in>set a. is_space c) \<and> (\<forall>c\<in>set b. is_space c)"
    by (rule strip_decomposition)
next
  assume "strip line \<noteq> []"
  then have "\<not> is_space (hd (strip line)) \<and> \<not> is_space (last (strip line))"
    by (rule strip_ends)
  then show "\<not> is_space (hd (strip line))" and "\<not> is_space (last (strip line))"
    by simp_all
next
  assume "loads (strip line) = Inl e"
  then show "process_line loads ks fp line (processed_lines, out)
      = Inr (processed_lines, out @ [error_msg fp e])"
    by (rule process_line_decode_error)
next
  assume "loads (strip line) = Inr v"
  then show "process_line loads ks fp line (processed_lines, out)
      = (case filtered_data ks v of
           Inl err \<Rightarrow> Inl err
         | Inr d \<Rightarrow> Inr (processed_lines @ [d], out))"
    by (simp add: process_line_def split: sum.splits)
next
  assume a: "(\<forall>c\<in>set line. is_space c) \<and> loads [] = Inl e"
  then show blank: "strip line = []"
    by (simp add: strip_spaces)
  with a show "process_line loads ks fp line (processed_lines, out)
      = Inr (processed_lines, out @ [error_msg fp e])"
    by (simp add: process_line_decode_error)
qed

theorem every_line_decoded_witness:
  "strip padded_line = example_text
   \<and> padded_line = '' '' @ example_text @ ('' '' @ [newline])
   \<and> example_text \<noteq> []
   \<and> \<not> is_space (hd example_text) \<and> \<not> is_space (last example_text)
   \<and> example_loads example_text = Inr (JObject example_record)
   \<and> process_line example_loads declared_order example_path padded_line ([], [])
       = Inr ([example_kept], [])
   \<and> example_loads (strip invalid_text) = Inl expecting_value
   \<and> process_line example_loads declared_order example_path invalid_text ([], [])
       = Inr ([], [error_msg example_path expecting_value])
   \<and> blank_line = [CHR 0x20, newline] \<and> is_space (CHR 0x20) \<and> is_space newline
   \<and> example_loads [] = Inl expecting_value
   \<and> strip blank_line = []
   \<and> process_line example_loads declared_order example_path blank_line ([], [])
       = Inr ([], [error_msg example_path expecting_value])"
proof -
  note padded = every_line_decoded [where line = padded_line and loads = example_loads
      and ks = declared_order and fp = example_path and processed_lines = "[]" and out = "[]"
      and v = "JObject example_record"]
  note invalid = every_line_decoded [where line = invalid_text and loads = example_loads
      and ks = declared_order and fp = example_path and processed_lines = "[]" and out = "[]"
      and e = expecting_value]
  note blank = every_line_decoded [where line = blank_line and loads = example_loads
      and ks = declared_order and fp = example_path and processed_lines = "[]" and out = "[]"
      and e = expecting_value]
  have nonempty: "example_text \<noteq> []"
    by (simp add: example_text_def)
  have loads: "example_loads example_text = Inr (JObject example_record)"
    by (simp add: example_loads_def)
  from padded [THEN conjunct2, THEN conjunct1] nonempty
  have ends: "\<not> is_space (hd example_text)" "\<not> is_space (last example_text)"
    by (simp_all add: strip_padded)
  from padded [THEN conjunct2, THEN conjunct2, THEN conjunct2, THEN conjunct1] loads
  have kept: "process_line example_loads declared_order example_path padded_line ([], [])
      = Inr ([example_kept], [])"
    by (simp add: strip_padded filtered_example_record)
  from invalid [THEN conjunct2, THEN conjunct2, THEN conjunct1] loads_invalid
  have dropped: "process_line example_loads declared_order example_path invalid_text ([], [])
      = Inr ([], [error_msg example_path expecting_value])"
    by simp
  have "\<forall>c\<in>set blank_line. is_space c"
    by (simp add: blank_line_spaces)
  with blank [THEN conjunct2, THEN conjunct2, THEN conjunct2, THEN conjunct2] loads_empty
  have diagnosed: "strip blank_line = []"
    "process_line example_loads declared_order example_path blank_line ([], [])
      = Inr ([], [error_msg example_path expecting_value])"
    by simp_all
  show ?thesis
    using strip_padded padded_parts nonempty ends loads kept loads_invalid dropped
      blank_line_spaces loads_empty diagnosed
    by (intro conjI) assumption+
qed

subsection \<open>Lines that decode to something else than an object\<close>

text \<open>
  C9. A line that decodes to null, a boolean or a number makes the membership test raise
  \<^verbatim>\<open>TypeError\<close>, which nothing catches: the run ends with this error and the file is
  left as it was, neither rewritten nor reduced by the line. When every line that decodes
  yields an object, the read loop raises nothing.
\<close>

theorem not_iterable_aborts:
  "(listing w = Inr names \<and> glob names = before @ fp # after
      \<and> process_files loads dumps ks before w = (Inr (), w1)
      \<and> files w1 fp = Some f \<and> readable f \<and> line \<in> set (readlines (content f))
      \<and> loads (strip line) = Inr v
      \<and> (v = JNull \<or> (\<exists>b. v = JBool b) \<or> (\<exists>i. v = JInt i) \<or> (\<exists>x. v = JFloat x))
      \<and> iterates ks fields_to_keep
    \<longrightarrow> process_line loads ks fp line st = Inl TypeError
        \<and> (\<exists>w2. process_code_summarization_files loads dumps ks w = (Inl TypeError, w2)
                \<and> files w2 = files w1))
   \<and> ((\<forall>l\<in>set lines. \<forall>u. loads (strip l) = Inr u \<longrightarrow> (\<exists>obj. u = JObject obj))
    \<longrightarrow> (\<exists>rs out. read_loop loads ks fp lines st = (Inr rs, out)))"
proof (intro conjI impI)
  assume a: "listing w = Inr names \<and> glob names = before @ fp # after
      \<and> process_files loads dumps ks before w = (Inr (), w1)
      \<and> files w1 fp = Some f \<and> readable f \<and> line \<in> set (readlines (content f))
      \<and> loads (strip line) = Inr v
      \<and> (v = JNull \<or> (\<exists>b. v = JBool b) \<or> (\<exists>i. v = JInt i) \<or> (\<exists>x. v = JFloat x))
      \<and> iterates ks fields_to_keep"
  then have raises: "filtered_data ks v = Inl TypeError"
    by (intro filtered_data_not_iterable iterates_nonempty) simp_all
  with a show "process_line loads ks fp line st = Inl TypeError"
    by (simp add: process_line_raises)
  from a raises obtain w2 where
    w2: "process_file loads dumps ks fp w1 = (Inl TypeError, w2)" "files w2 = files w1"
    using process_file_TypeError [of w1 fp f line loads v ks dumps] by auto
  with a have "process_files loads dumps ks (glob names) w = (Inl TypeError, w2)"
    by (simp add: process_files_stops)
  with a w2
  show "\<exists>w2. process_code_summarization_files loads dumps ks w = (Inl TypeError, w2)
          \<and> files w2 = files w1"
    by (simp add: process_code_summarization_files_def select_from_def)
next
  assume "\<forall>l\<in>set lines. \<forall>u. loads (strip l) = Inr u \<longrightarrow> (\<exists>obj. u = JObject obj)"
  then have "\<not> isl (filtered_data ks u)" if "l \<in> set lines" "loads (strip l) = Inr u" for l u
    using that by (fastforce simp: filtered_data_object)
  then have "\<forall>l\<in>set lines. \<forall>u. loads (strip l) = Inr u \<longrightarrow> \<not> isl (filtered_data ks u)"
    by blast
  from read_loop_accepted [OF this, of fp "fst st" "snd st"]
  show "\<exists>rs out. read_loop loads ks fp lines st = (Inr rs, out)"
    by simp
qed

theorem not_iterable_aborts_witness:
  "listing number_world = Inr [''a.jsonl''] \<and> glob [''a.jsonl''] = [] @ example_path # []
   \<and> files number_world example_path = Some number_file \<and> readable number_file
   \<and> readlines (content number_file) = [number_text @ [newline]]
   \<and> example_loads (strip (number_text @ [newline])) = Inr (JInt 5)
   \<and> iterates declared_order fields_to_keep
   \<and> process_line example_loads declared_order example_path (number_text @ [newline]) ([], [])
       = Inl TypeError
   \<and> fst (process_code_summarization_files example_loads example_dumps declared_order
            number_world) = Inl TypeError
   \<and> files (snd (process_code_summarization_files example_loads example_dumps declared_order
            number_world)) = files number_world
   \<and> example_loads (strip (example_text @ [newline])) = Inr (JObject example_record)
   \<and> (\<exists>rs out. read_loop example_loads declared_order example_path [example_text @ [newline]]
         ([], []) = (Inr rs, out))"
proof -
  have h: "listing number_world = Inr [''a.jsonl'']"
    "files number_world example_path = Some number_file" "readable number_file"
    by (simp_all add: number_world_def number_file_def)
  have objs: "\<forall>l\<in>set [example_text @ [newline]]. \<forall>u.
      example_loads (strip l) = Inr u \<longrightarrow> (\<exists>obj. u = JObject obj)"
    by (simp add: loads_example_line)
  note t = not_iterable_aborts [where w = number_world and names = "[''a.jsonl'']"
      and before = "[]" and fp = example_path and after = "[]" and loads = example_loads
      and dumps = example_dumps and ks = declared_order and ?w1.0 = number_world
      and f = number_file and line = "number_text @ [newline]" and v = "JInt 5" and st = "([], [])"
      and lines = "[example_text @ [newline]]"]
  have "process_line example_loads declared_order example_path (number_text @ [newline]) ([], [])
          = Inl TypeError
        \<and> (\<exists>w2. process_code_summarization_files example_loads example_dumps declared_order
                   number_world = (Inl TypeError, w2)
                \<and> files w2 = files number_world)"
    by (rule t [THEN conjunct1, THEN mp])
       (simp add: h glob_a readlines_number loads_number iterates_declared_order)
  then obtain w2 where
    pl: "process_line example_loads declared_order example_path (number_text @ [newline]) ([], [])
          = Inl TypeError"
    and run: "process_code_summarization_files example_loads example_dumps declared_order
                number_world = (Inl TypeError, w2)"
    and w2: "files w2 = files number_world"
    by blast
  have rl: "\<exists>rs out. read_loop example_loads declared_order example_path
              [example_text @ [newline]] ([], []) = (Inr rs, out)"
    by (rule t [THEN conjunct2, THEN mp]) (rule objs)
  show ?thesis
    by (simp only: h glob_a readlines_number loads_number iterates_declared_order
        loads_example_line pl run w2 rl fst_conv snd_conv simp_thms)
qed

text \<open>
  C10, as stated, fails. In the file of the two lines \<^verbatim>\<open>"hello"\<close> and \<^verbatim>\<open>5\<close> the first
  line decodes to a string in which no whitelisted key occurs, and the empty record is
  appended for it; the second line raises \<^verbatim>\<open>TypeError\<close>, the run ends there and the file
  keeps its content: no line \<^verbatim>\<open>{}\<close> is written.
\<close>

theorem empty_record_counterexample:
  "files string_number_world example_path = Some string_number_file
   \<and> readable string_number_file \<and> writing string_number_file = WriteOk
   \<and> readlines (content string_number_file) = [hello_text @ [newline], number_text @ [newline]]
   \<and> example_loads (strip (hello_text @ [newline])) = Inr (JString ''hello'')
   \<and> filtered_data declared_order (JString ''hello'') = Inr []
   \<and> process_line example_loads declared_order example_path (hello_text @ [newline])
        ([], [processing_msg example_path])
      = Inr ([[]], [processing_msg example_path])
   \<and> process_file example_loads example_dumps declared_order example_path string_number_world
       = (Inl TypeError, string_number_world\<lparr>stdout := [processing_msg example_path]\<rparr>)"
proof -
  have "read_loop example_loads declared_order example_path
          (readlines (content string_number_file))
          ([], stdout string_number_world @ [processing_msg example_path])
        = (Inl TypeError, [processing_msg example_path])"
    by (simp add: readlines_string_number process_hello_line process_number_line
        string_number_world_file)
  from process_file_read_raises [OF string_number_world_file(1,2) this,
      where dumps = example_dumps]
  have "process_file example_loads example_dumps declared_order example_path
          string_number_world
        = (Inl TypeError, string_number_world\<lparr>stdout := [processing_msg example_path]\<rparr>)" .
  then show ?thesis
    using string_number_world_file(1-3) readlines_string_number loads_hello filtered_hello
      process_hello_line [of "[]" "[processing_msg example_path]"]
    by simp
qed

text \<open>
  C10, amended. A line that decodes to a string in which no whitelisted key occurs, or to
  an array none of whose elements is a whitelisted key, is not dropped: the empty record
  is appended. When the file can be read and rewritten and no other line of it makes the
  comprehension raise, the file is rewritten with the line \<^verbatim>\<open>{}\<close> (the text
  \<^verbatim>\<open>json.dump\<close> writes for the empty dict) in the place of this line: after the lines
  written for the lines before it, and before those written for the lines after it.
\<close>

theorem empty_record_written:
  assumes "files w fp = Some f" and "readable f" and "writing f = WriteOk"
    and "readlines (content f) = pre @ line # post"
    and "loads (strip line) = Inr v"
    and "(\<exists>s. v = JString s \<and> (\<forall>k\<in>fields_to_keep. \<not> sublist k s))
         \<or> (\<exists>xs. v = JArray xs \<and> (\<forall>k\<in>fields_to_keep. JString k \<notin> set xs))"
    and "iterates ks fields_to_keep"
    and "\<forall>l\<in>set (pre @ post). \<forall>u. loads (strip l) = Inr u \<longrightarrow> \<not> isl (filtered_data ks u)"
    and \<open>dumps [] = ''{}''\<close>
    and "\<forall>d. newline \<notin> set (dumps d)"
  shows "process_line loads ks fp line (processed_lines, out) = Inr (processed_lines @ [[]], out)
     \<and> (\<exists>w' f'. process_file loads dumps ks fp w = (Inr (), w') \<and> files w' fp = Some f'
          \<and> readlines (content f')
              = map (\<lambda>l. dumps (projr (filtered_data ks (projr (loads (strip l))))) @ [newline])
                  (filter (\<lambda>l. \<not> isl (loads (strip l))) pre)
                @ [''{}'' @ [newline]]
                @ map (\<lambda>l. dumps (projr (filtered_data ks (projr (loads (strip l))))) @ [newline])
                    (filter (\<lambda>l. \<not> isl (loads (strip l))) post))"
proof -
  let ?rec = "\<lambda>l. projr (filtered_data ks (projr (loads (strip l))))"
  let ?valid = "filter (\<lambda>l. \<not> isl (loads (strip l)))"
  let ?rs = "map ?rec (?valid (readlines (content f)))"
  let ?f' = "f\<lparr>content := encode dumps ?rs\<rparr>"
  from assms(6,7) have empty: "filtered_data ks v = Inr []"
    by (auto simp: iterates_def filtered_data_string filtered_data_array)
  with assms(5) have appended:
    "process_line loads ks fp line (processed_lines, out) = Inr (processed_lines @ [[]], out)"
    by (simp add: process_line_kept)
  from assms(5) empty
  have "\<forall>u. loads (strip line) = Inr u \<longrightarrow> \<not> isl (filtered_data ks u)"
    by simp
  with assms(4,8)
  have "\<forall>l\<in>set (readlines (content f)). \<forall>u.
          loads (strip l) = Inr u \<longrightarrow> \<not> isl (filtered_data ks u)"
    by auto
  from process_file_accepted [OF assms(1-3) this, of dumps]
  have "\<exists>w'. process_file loads dumps ks fp w = (Inr (), w') \<and> files w' fp = Some ?f'"
    by simp
  moreover from assms(4,5) empty
  have "?rs = map ?rec (?valid pre) @ [[]] @ map ?rec (?valid post)"
    by simp
  then have "map (\<lambda>d. dumps d @ [newline]) ?rs
      = map (\<lambda>l. dumps (?rec l) @ [newline]) (?valid pre)
        @ [''{}'' @ [newline]]
        @ map (\<lambda>l. dumps (?rec l) @ [newline]) (?valid post)"
    using assms(9) by (simp add: comp_def)
  moreover from assms(10)
  have "readlines (encode dumps ?rs) = map (\<lambda>d. dumps d @ [newline]) ?rs"
    by (intro readlines_encode) simp
  ultimately
  have "\<exists>w' f'. process_file loads dumps ks fp w = (Inr (), w') \<and> files w' fp = Some f'
          \<and> readlines (content f')
              = map (\<lambda>l. dumps (?rec l) @ [newline]) (?valid pre)
                @ [''{}'' @ [newline]]
                @ map (\<lambda>l. dumps (?rec l) @ [newline]) (?valid post)"
    by (intro exI [of _ ?f'] conjI ex_comm [THEN iffD1]) auto
  with appended show ?thesis by simp
qed

theorem empty_record_written_witness:
  \<open>files string_array_world example_path = Some string_array_file
   \<and> readable string_array_file \<and> writing string_array_file = WriteOk
   \<and> readlines (content string_array_file) = [hello_text @ [newline], array_text @ [newline]]
   \<and> example_loads (strip (hello_text @ [newline])) = Inr (JString ''hello'')
   \<and> \<not> sublist ''task'' ''hello'' \<and> \<not> sublist ''lang'' ''hello'' \<and> \<not> sublist ''url'' ''hello''
   \<and> \<not> sublist ''prompt_category'' ''hello'' \<and> \<not> sublist ''prompt_id'' ''hello''
   \<and> \<not> sublist ''model_name'' ''hello'' \<and> \<not> sublist ''metrics'' ''hello''
   \<and> example_loads (strip (array_text @ [newline])) = Inr (JArray [JInt 1])
   \<and> iterates declared_order fields_to_keep
   \<and> example_dumps [] = ''{}''
   \<and> (\<forall>d. newline \<notin> set (example_dumps d))
   \<and> process_line example_loads declared_order example_path (hello_text @ [newline]) ([], [])
       = Inr ([[]], [])
   \<and> process_line example_loads declared_order example_path (array_text @ [newline]) ([], [])
       = Inr ([[]], [])
   \<and> (\<exists>w' f'. process_file example_loads example_dumps declared_order example_path
                  string_array_world = (Inr (), w')
        \<and> files w' example_path = Some f'
        \<and> readlines (content f') = [''{}'' @ [newline], ''{}'' @ [newline]])\<close>
proof -
  have no_key: "\<forall>k\<in>fields_to_keep. \<not> sublist k ''hello''"
    by (rule hello_no_key)
  then have s: "(\<exists>s. JString ''hello'' = JString s \<and> (\<forall>k\<in>fields_to_keep. \<not> sublist k s))
      \<or> (\<exists>xs. JString ''hello'' = JArray xs \<and> (\<forall>k\<in>fields_to_keep. JString k \<notin> set xs))"
    by simp
  have a: "(\<exists>s. JArray [JInt 1] = JString s \<and> (\<forall>k\<in>fields_to_keep. \<not> sublist k s))
      \<or> (\<exists>xs. JArray [JInt 1] = JArray xs \<and> (\<forall>k\<in>fields_to_keep. JString k \<notin> set xs))"
    by simp
  have lines1: "readlines (content string_array_file)
      = [] @ (hello_text @ [newline]) # [array_text @ [newline]]"
    by (simp add: readlines_string_array)
  have lines2: "readlines (content string_array_file)
      = [hello_text @ [newline]] @ (array_text @ [newline]) # []"
    by (simp add: readlines_string_array)
  have rest1: "\<forall>l\<in>set ([] @ [array_text @ [newline]]). \<forall>u.
      example_loads (strip l) = Inr u \<longrightarrow> \<not> isl (filtered_data declared_order u)"
    by (simp add: loads_array filtered_array)
  have rest2: "\<forall>l\<in>set ([hello_text @ [newline]] @ []). \<forall>u.
      example_loads (strip l) = Inr u \<longrightarrow> \<not> isl (filtered_data declared_order u)"
    by (simp add: loads_hello filtered_hello)
  have no_newline: "\<forall>d. newline \<notin> set (example_dumps d)"
    by (simp add: dumps_no_newline)
  note hello = empty_record_written [where loads = example_loads and dumps = example_dumps
      and processed_lines = "[]" and out = "[]",
      OF string_array_world_file(1-3) lines1 loads_hello s iterates_declared_order rest1
        dumps_empty no_newline]
  note array = empty_record_written [where loads = example_loads and dumps = example_dumps
      and processed_lines = "[]" and out = "[]",
      OF string_array_world_file(1-3) lines2 loads_array a iterates_declared_order rest2
        dumps_empty no_newline]
  from hello have h1:
    "process_line example_loads declared_order example_path (hello_text @ [newline]) ([], [])
       = Inr ([[]], [])"
    by simp
  from array have h2:
    "process_line example_loads declared_order example_path (array_text @ [newline]) ([], [])
       = Inr ([[]], [])"
    by simp
  from hello have h3:
    "\<exists>w' f'. process_file example_loads example_dumps declared_order example_path
                  string_array_world = (Inr (), w')
        \<and> files w' example_path = Some f'
        \<and> readlines (content f') = [''{}'' @ [newline], ''{}'' @ [newline]]"
    by (simp add: loads_array filtered_array dumps_empty)
  from no_key have keys:
    "\<not> sublist ''task'' ''hello''" "\<not> sublist ''lang'' ''hello''" "\<not> sublist ''url'' ''hello''"
    "\<not> sublist ''prompt_category'' ''hello''" "\<not> sublist ''prompt_id'' ''hello''"
    "\<not> sublist ''model_name'' ''hello''" "\<not> sublist ''metrics'' ''hello''"
    by (simp_all add: fields_to_keep_def)
  show ?thesis
    using string_array_world_file(1-3) readlines_string_array loads_hello keys loads_array
      iterates_declared_order dumps_empty no_newline h1 h2 h3
    by (intro conjI) assumption+
qed

subsection \<open>Malformed lines\<close>

text \<open>
  C3, as stated, fails. The file of one line \<^verbatim>\<open>5\<close> has one line and no line that fails to
  decode, yet the rewrite writes no line: the membership test raises \<^verbatim>\<open>TypeError\<close> on
  the number, the run ends there, and the file keeps its content.
\<close>

theorem malformed_lines_counterexample:
  "files number_world example_path = Some number_file
   \<and> readable number_file \<and> writing number_file = WriteOk
   \<and> readlines (content number_file) = [number_text @ [newline]]
   \<and> example_loads (strip (number_text @ [newline])) = Inr (JInt 5)
   \<and> process_file example_loads example_dumps declared_order example_path number_world
       = (Inl TypeError, number_world\<lparr>stdout := [processing_msg example_path]\<rparr>)"
proof -
  have "read_loop example_loads declared_order example_path (readlines (content number_file))
          ([], stdout number_world @ [processing_msg example_path])
        = (Inl TypeError, [processing_msg example_path])"
    by (simp add: readlines_number process_number_line number_world_file)
  from process_file_read_raises [OF number_world_file(2,3) this, of example_dumps]
  show ?thesis
    by (simp add: number_world_file readlines_number loads_number)
       (simp add: number_file_def)
qed

text \<open>
  C3, amended. Take a file that can be read and rewritten, in which every line that
  decodes yields a value the comprehension accepts (an object, or a string or array in
  which no whitelisted key is found), and an encoder that writes no newline inside a
  record. With \<open>N\<close> lines of which \<open>M\<close> fail to decode, the file is processed to its
  end: a diagnostic is printed for each of the \<open>M\<close> lines, in their order, between the
  two progress lines; the rewritten file has \<open>N - M\<close> lines, one for each line that
  decoded, in the order of these lines.
\<close>

theorem malformed_lines_dropped:
  assumes "files w fp = Some f" and "readable f" and "writing f = WriteOk"
    and "\<forall>line\<in>set (readlines (content f)). \<forall>v.
           loads (strip line) = Inr v \<longrightarrow> \<not> isl (filtered_data ks v)"
    and "\<forall>d. newline \<notin> set (dumps d)"
  shows "\<exists>w' f'. process_file loads dumps ks fp w = (Inr (), w') \<and> files w' fp = Some f'
     \<and> length (readlines (content f'))
         = length (readlines (content f))
           - length (filter (\<lambda>l. isl (loads (strip l))) (readlines (content f)))
     \<and> readlines (content f')
         = map (\<lambda>l. dumps (projr (filtered_data ks (projr (loads (strip l))))) @ [newline])
             (filter (\<lambda>l. \<not> isl (loads (strip l))) (readlines (content f)))
     \<and> stdout w'
         = stdout w @ [processing_msg fp]
           @ map (\<lambda>l. error_msg fp (projl (loads (strip l))))
               (filter (\<lambda>l. isl (loads (strip l))) (readlines (content f)))
           @ [completed_msg fp]"
proof -
  let ?lines = "readlines (content f)"
  let ?rs = "map (\<lambda>l. projr (filtered_data ks (projr (loads (strip l)))))
               (filter (\<lambda>l. \<not> isl (loads (strip l))) ?lines)"
  let ?out = "(stdout w @ [processing_msg fp])
               @ map (\<lambda>l. error_msg fp (projl (loads (strip l))))
                   (filter (\<lambda>l. isl (loads (strip l))) ?lines)"
  let ?f' = "f\<lparr>content := encode dumps ?rs\<rparr>"
  let ?w' = "w\<lparr>files := (files w)(fp \<mapsto> ?f'), stdout := ?out @ [completed_msg fp]\<rparr>"
  from read_loop_accepted [OF assms(4), of fp "[]" "stdout w @ [processing_msg fp]"]
  have "read_loop loads ks fp ?lines ([], stdout w @ [processing_msg fp]) = (Inr ?rs, ?out)"
    by simp
  from process_file_written [OF assms(1-3) this, of dumps]
  have run: "process_file loads dumps ks fp w = (Inr (), ?w')" .
  from assms(5) have "readlines (encode dumps ?rs) = map (\<lambda>d. dumps d @ [newline]) ?rs"
    by (intro readlines_encode) simp
  then have written: "readlines (content ?f')
      = map (\<lambda>l. dumps (projr (filtered_data ks (projr (loads (strip l))))) @ [newline])
          (filter (\<lambda>l. \<not> isl (loads (strip l))) ?lines)"
    by (simp add: comp_def)
  then have "length (readlines (content ?f'))
      = length ?lines - length (filter (\<lambda>l. isl (loads (strip l))) ?lines)"
    by (simp add: length_valid)
  with run written show ?thesis
    by (intro exI [of _ ?w'] exI [of _ ?f']) simp
qed

theorem malformed_lines_dropped_witness:
  "files example_world example_path = Some example_file
   \<and> readable example_file \<and> writing example_file = WriteOk
   \<and> readlines (content example_file) = [example_text @ [newline], invalid_text]
   \<and> example_loads (strip (example_text @ [newline])) = Inr (JObject example_record)
   \<and> filtered_data declared_order (JObject example_record) = Inr example_kept
   \<and> example_loads (strip invalid_text) = Inl expecting_value
   \<and> (\<forall>d. newline \<notin> set (example_dumps d))
   \<and> (\<exists>w' f'. process_file example_loads example_dumps declared_order example_path example_world
                 = (Inr (), w')
        \<and> files w' example_path = Some f'
        \<and> length (readlines (content f')) = 2 - 1
        \<and> readlines (content f') = [example_kept_text @ [newline]]
        \<and> stdout w' = [processing_msg example_path, error_msg example_path expecting_value,
                        completed_msg example_path])"
proof -
  have accepted: "\<forall>line\<in>set (readlines (content example_file)). \<forall>v.
      example_loads (strip line) = Inr v \<longrightarrow> \<not> isl (filtered_data declared_order v)"
    by (simp add: readlines_example loads_example_line loads_invalid filtered_example_record)
  have no_newline: "\<forall>d. newline \<notin> set (example_dumps d)"
    by (simp add: dumps_no_newline)
  from malformed_lines_dropped [OF example_world_file(1-3) accepted no_newline]
  obtain w' f' where
    "process_file example_loads example_dumps declared_order example_path example_world
       = (Inr (), w')"
    "files w' example_path = Some f'"
    "length (readlines (content f')) = 2 - 1"
    "readlines (content f') = [example_kept_text @ [newline]]"
    "stdout w' = [processing_msg example_path, error_msg example_path expecting_value,
                  completed_msg example_path]"
    by (auto simp: readlines_example loads_example_line loads_invalid filtered_example_record
        dumps_kept example_world_file)
  then show ?thesis
    using example_world_file readlines_example loads_example_line filtered_example_record
      loads_invalid no_newline
    by blast
qed

subsection \<open>Read first, write after\<close>

text \<open>
  C7. The file is written only once the read loop has gone through all its lines: when a
  line raises, the file system is left as it was; when the loop ends with the records
  \<open>rs\<close> and the file can be written, the old content is replaced by the text of \<open>rs\<close>,
  one record after the other, each followed by a newline, and (the encoder writing no
  newline inside a record) each record is one line of the new file.
\<close>

theorem write_after_read:
  assumes "files w fp = Some f" and "readable f"
  shows "(fst (read_loop loads ks fp (readlines (content f))
                 ([], stdout w @ [processing_msg fp])) = Inl e
          \<longrightarrow> (\<exists>w'. process_file loads dumps ks fp w = (Inl e, w') \<and> files w' = files w))
       \<and> (read_loop loads ks fp (readlines (content f))
             ([], stdout w @ [processing_msg fp]) = (Inr rs, out)
           \<and> writing f = WriteOk \<and> (\<forall>d\<in>set rs. newline \<notin> set (dumps d))
          \<longrightarrow> (\<exists>w'. process_file loads dumps ks fp w = (Inr (), w')
                \<and> files w'
                    = (files w)(fp \<mapsto> f\<lparr>content := concat (map (\<lambda>d. dumps d @ [newline]) rs)\<rparr>)
                \<and> readlines (concat (map (\<lambda>d. dumps d @ [newline]) rs))
                    = map (\<lambda>d. dumps d @ [newline]) rs))"
proof (intro conjI impI)
  let ?st = "([], stdout w @ [processing_msg fp])"
  assume "fst (read_loop loads ks fp (readlines (content f)) ?st) = Inl e"
  then obtain out' where "read_loop loads ks fp (readlines (content f)) ?st = (Inl e, out')"
    by (cases "read_loop loads ks fp (readlines (content f)) ?st") auto
  from process_file_read_raises [OF assms this, of dumps]
  show "\<exists>w'. process_file loads dumps ks fp w = (Inl e, w') \<and> files w' = files w"
    by simp
next
  let ?st = "([], stdout w @ [processing_msg fp])"
  assume a: "read_loop loads ks fp (readlines (content f)) ?st = (Inr rs, out)
           \<and> writing f = WriteOk \<and> (\<forall>d\<in>set rs. newline \<notin> set (dumps d))"
  then have rl: "read_loop loads ks fp (readlines (content f)) ?st = (Inr rs, out)"
    and wr: "writing f = WriteOk" and nl: "\<forall>d\<in>set rs. newline \<notin> set (dumps d)"
    by blast+
  from readlines_encode [OF nl]
  have "readlines (concat (map (\<lambda>d. dumps d @ [newline]) rs)) = map (\<lambda>d. dumps d @ [newline]) rs"
    by (simp add: encode_def)
  with process_file_written [OF assms wr rl, of dumps]
  show "\<exists>w'. process_file loads dumps ks fp w = (Inr (), w')
          \<and> files w' = (files w)(fp \<mapsto> f\<lparr>content := concat (map (\<lambda>d. dumps d @ [newline]) rs)\<rparr>)
          \<and> readlines (concat (map (\<lambda>d. dumps d @ [newline]) rs))
              = map (\<lambda>d. dumps d @ [newline]) rs"
    by (simp add: encode_def)
qed

theorem write_after_read_witness:
  "files number_world example_path = Some number_file \<and> readable number_file
   \<and> fst (read_loop example_loads declared_order example_path (readlines (content number_file))
            ([], stdout number_world @ [processing_msg example_path])) = Inl TypeError
   \<and> (\<exists>w'. process_file example_loads example_dumps declared_order example_path number_world
              = (Inl TypeError, w')
          \<and> files w' = files number_world)
   \<and> files example_world example_path = Some example_file \<and> readable example_file
   \<and> read_loop example_loads declared_order example_path (readlines (content example_file))
        ([], stdout example_world @ [processing_msg example_path])
      = (Inr [example_kept], [processing_msg example_path, error_msg example_path expecting_value])
   \<and> writing example_file = WriteOk
   \<and> newline \<notin> set (example_dumps example_kept)
   \<and> (\<exists>w'. process_file example_loads example_dumps declared_order example_path example_world
              = (Inr (), w')
          \<and> files w' = (files example_world)
               (example_path \<mapsto> example_file\<lparr>content := example_kept_text @ [newline]\<rparr>)
          \<and> readlines (example_kept_text @ [newline]) = [example_kept_text @ [newline]])"
proof -
  note n = write_after_read [OF number_world_file(2,3), where loads = example_loads
      and ks = declared_order and dumps = example_dumps and e = TypeError]
  note x = write_after_read [OF example_world_file(1,2), where loads = example_loads
      and ks = declared_order and dumps = example_dumps and rs = "[example_kept]"
      and out = "[processing_msg example_path, error_msg example_path expecting_value]"]
  have "\<exists>w'. process_file example_loads example_dumps declared_order example_path number_world
              = (Inl TypeError, w')
          \<and> files w' = files number_world"
    by (rule n [THEN conjunct1, THEN mp]) (insert read_loop_number, simp)
  moreover
  have "\<exists>w'. process_file example_loads example_dumps declared_order example_path example_world
              = (Inr (), w')
          \<and> files w' = (files example_world)
               (example_path \<mapsto> example_file\<lparr>content :=
                  concat (map (\<lambda>d. example_dumps d @ [newline]) [example_kept])\<rparr>)
          \<and> readlines (concat (map (\<lambda>d. example_dumps d @ [newline]) [example_kept]))
              = map (\<lambda>d. example_dumps d @ [newline]) [example_kept]"
    by (rule x [THEN conjunct2, THEN mp])
       (insert read_loop_example, simp add: example_world_file dumps_no_newline)
  then have "\<exists>w'. process_file example_loads example_dumps declared_order example_path
                example_world = (Inr (), w')
          \<and> files w' = (files example_world)
               (example_path \<mapsto> example_file\<lparr>content := example_kept_text @ [newline]\<rparr>)
          \<and> readlines (example_kept_text @ [newline]) = [example_kept_text @ [newline]]"
    by (simp add: dumps_kept)
  ultimately show ?thesis
    using number_world_file example_world_file read_loop_number read_loop_example
      dumps_no_newline [of example_kept]
    by (simp only: fst_conv simp_thms)
qed

subsection \<open>Running the filter twice\<close>

text \<open>
  C4. Take a file that can be read and rewritten, and two iteration orders \<open>ks\<close> and
  \<open>ks'\<close> of the whitelist. When the read loop of the first run ends with the records
  \<open>R1\<close>, each of which, written and read back, decodes to itself, the first run writes
  \<open>R1\<close> and the second run, on the result, ends normally and writes records \<open>R2\<close>
  that are equal to those of \<open>R1\<close> as dicts, one by one; with the same iteration order
  the records and the file are the same. When the read loop of the first run raises, both
  runs end with that error and the file is as it was.
\<close>

theorem rewrite_idempotent:
  assumes "files w fp = Some f" and "readable f" and "writing f = WriteOk"
    and "iterates ks fields_to_keep" and "iterates ks' fields_to_keep"
  shows
    "(read_loop loads ks fp (readlines (content f)) ([], stdout w @ [processing_msg fp])
        = (Inr R1, out1)
      \<and> (\<forall>r\<in>set R1. newline \<notin> set (dumps r)
            \<and> loads (strip (dumps r @ [newline])) = Inr (JObject r))
      \<longrightarrow> (\<exists>w1 w2 R2.
            process_file loads dumps ks fp w = (Inr (), w1)
          \<and> files w1 = (files w)(fp \<mapsto> f\<lparr>content := encode dumps R1\<rparr>)
          \<and> process_file loads dumps ks' fp w1 = (Inr (), w2)
          \<and> files w2 = (files w)(fp \<mapsto> f\<lparr>content := encode dumps R2\<rparr>)
          \<and> map map_of R2 = map map_of R1
          \<and> (ks' = ks \<longrightarrow> R2 = R1 \<and> files w2 = files w1)))
   \<and> (fst (read_loop loads ks fp (readlines (content f))
              ([], stdout w @ [processing_msg fp])) = Inl e
      \<longrightarrow> (\<exists>w1 w2. process_file loads dumps ks fp w = (Inl e, w1) \<and> files w1 = files w
            \<and> process_file loads dumps ks' fp w1 = (Inl e, w2) \<and> files w2 = files w))"
proof (intro conjI impI)
  assume a: "read_loop loads ks fp (readlines (content f)) ([], stdout w @ [processing_msg fp])
        = (Inr R1, out1)
      \<and> (\<forall>r\<in>set R1. newline \<notin> set (dumps r)
            \<and> loads (strip (dumps r @ [newline])) = Inr (JObject r))"
  then have rl: "read_loop loads ks fp (readlines (content f))
      ([], stdout w @ [processing_msg fp]) = (Inr R1, out1)"
    and round: "\<forall>r\<in>set R1. newline \<notin> set (dumps r)
            \<and> loads (strip (dumps r @ [newline])) = Inr (JObject r)"
    by blast+
  from assms(1-3) rl round assms(4,5)
  show "\<exists>w1 w2 R2.
            process_file loads dumps ks fp w = (Inr (), w1)
          \<and> files w1 = (files w)(fp \<mapsto> f\<lparr>content := encode dumps R1\<rparr>)
          \<and> process_file loads dumps ks' fp w1 = (Inr (), w2)
          \<and> files w2 = (files w)(fp \<mapsto> f\<lparr>content := encode dumps R2\<rparr>)
          \<and> map map_of R2 = map map_of R1
          \<and> (ks' = ks \<longrightarrow> R2 = R1 \<and> files w2 = files w1)"
    by (rule rewrite_twice_completed)
next
  assume "fst (read_loop loads ks fp (readlines (content f))
                ([], stdout w @ [processing_msg fp])) = Inl e"
  moreover from assms(4,5) have "set ks = set ks'"
    by (simp add: iterates_def)
  ultimately
  show "\<exists>w1 w2. process_file loads dumps ks fp w = (Inl e, w1) \<and> files w1 = files w
          \<and> process_file loads dumps ks' fp w1 = (Inl e, w2) \<and> files w2 = files w"
    by (rule rewrite_twice_raised [OF assms(1,2), rotated])
qed

theorem rewrite_idempotent_witness:
  "files example_world example_path = Some example_file
   \<and> readable example_file \<and> writing example_file = WriteOk
   \<and> read_loop example_loads declared_order example_path (readlines (content example_file))
        ([], stdout example_world @ [processing_msg example_path])
      = (Inr [example_kept], [processing_msg example_path, error_msg example_path expecting_value])
   \<and> newline \<notin> set (example_dumps example_kept)
   \<and> example_loads (strip (example_dumps example_kept @ [newline])) = Inr (JObject example_kept)
   \<and> iterates declared_order fields_to_keep
   \<and> iterates (rev declared_order) fields_to_keep
   \<and> (\<exists>w1 w2. process_file example_loads example_dumps declared_order example_path example_world
                 = (Inr (), w1)
        \<and> files w1 = (files example_world)
             (example_path \<mapsto> example_file\<lparr>content := encode example_dumps [example_kept]\<rparr>)
        \<and> process_file example_loads example_dumps declared_order example_path w1 = (Inr (), w2)
        \<and> files w2 = files w1)
   \<and> (\<exists>w1 w2 R2. process_file example_loads example_dumps declared_order example_path
                    example_world = (Inr (), w1)
        \<and> process_file example_loads example_dumps (rev declared_order) example_path w1
            = (Inr (), w2)
        \<and> files w2 = (files example_world)
             (example_path \<mapsto> example_file\<lparr>content := encode example_dumps R2\<rparr>)
        \<and> map map_of R2 = map map_of [example_kept])
   \<and> files number_world example_path = Some number_file
   \<and> readable number_file \<and> writing number_file = WriteOk
   \<and> fst (read_loop example_loads declared_order example_path (readlines (content number_file))
            ([], stdout number_world @ [processing_msg example_path])) = Inl TypeError
   \<and> (\<exists>w1 w2. process_file example_loads example_dumps declared_order example_path number_world
                 = (Inl TypeError, w1)
        \<and> files w1 = files number_world
        \<and> process_file example_loads example_dumps (rev declared_order) example_path w1
            = (Inl TypeError, w2)
        \<and> files w2 = files number_world)"
proof -
  have completed: "read_loop example_loads declared_order example_path
        (readlines (content example_file))
        ([], stdout example_world @ [processing_msg example_path])
      = (Inr [example_kept], [processing_msg example_path, error_msg example_path expecting_value])
    \<and> (\<forall>r\<in>set [example_kept]. newline \<notin> set (example_dumps r)
      \<and> example_loads (strip (example_dumps r @ [newline])) = Inr (JObject r))"
    using read_loop_example by (simp add: dumps_no_newline loads_kept_line)
  have raised: "fst (read_loop example_loads declared_order example_path
        (readlines (content number_file))
        ([], stdout number_world @ [processing_msg example_path])) = Inl TypeError"
    using read_loop_number by simp
  note same = rewrite_idempotent [OF example_world_file(1-3) iterates_declared_order
      iterates_declared_order, where loads = example_loads and dumps = example_dumps,
      THEN conjunct1, THEN mp, OF completed]
  note other = rewrite_idempotent [OF example_world_file(1-3) iterates_declared_order
      iterates_rev_declared_order, where loads = example_loads and dumps = example_dumps,
      THEN conjunct1, THEN mp, OF completed]
  note twice = rewrite_idempotent [OF number_world_file(2,3) number_writable
      iterates_declared_order iterates_rev_declared_order, where loads = example_loads
      and dumps = example_dumps, THEN conjunct2, THEN mp, OF raised]
  from same have
    "\<exists>w1 w2. process_file example_loads example_dumps declared_order example_path example_world
                 = (Inr (), w1)
        \<and> files w1 = (files example_world)
             (example_path \<mapsto> example_file\<lparr>content := encode example_dumps [example_kept]\<rparr>)
        \<and> process_file example_loads example_dumps declared_order example_path w1 = (Inr (), w2)
        \<and> files w2 = files w1"
    by blast
  moreover from other have
    "\<exists>w1 w2 R2. process_file example_loads example_dumps declared_order example_path
                    example_world = (Inr (), w1)
        \<and> process_file example_loads example_dumps (rev declared_order) example_path w1
            = (Inr (), w2)
        \<and> files w2 = (files example_world)
             (example_path \<mapsto> example_file\<lparr>content := encode example_dumps R2\<rparr>)
        \<and> map map_of R2 = map map_of [example_kept]"
    by blast
  ultimately show ?thesis
    using twice example_world_file(1-3) read_loop_example dumps_no_newline [of example_kept]
      loads_kept_line iterates_declared_order iterates_rev_declared_order
      number_world_file(2,3) number_writable raised
    by (simp only: simp_thms)
qed

subsection \<open>Input and output errors\<close>




end
